theory Spec2Isabelle
  imports Complex_Main "HOL-Library.Word" "HOL-Library.AList"
begin

section \<open>Single-precision arithmetic\<close>

text \<open>
  A C++ \<^verbatim>\<open>float\<close> is an IEEE 754 binary32 number, modelled by its 32 bits: the sign
  (bit 31), the exponent field (bits 30 to 23) and the fraction (bits 22 to 0). The 31
  bits below the sign, read as a number, are the \<^emph>\<open>magnitude code\<close> \<open>mag\<close>: the codes
  below \<open>inf_code\<close> (exponent field 255, fraction 0) are the finite magnitudes in
  increasing order, from the subnormal numbers up; \<open>inf_code\<close> is infinity and the codes
  above it are the NaNs.

  \<open>scaled m\<close> is the magnitude with code \<open>m\<close> in units of \<open>2^-149\<close> (the smallest
  subnormal number): the fraction itself for a subnormal code, and the fraction with its
  leading 1, shifted by the exponent, for a normal code. \<open>valof\<close> reads a float that is
  not a NaN as a real number; it reads an infinity as \<open>\<plusminus>2^128\<close>, the power of two above
  every finite float, so that \<open>valof\<close> orders the floats as \<^verbatim>\<open><\<close> and \<^verbatim>\<open>>\<close> do.
\<close>

type_synonym float = "32 word"

definition fsign :: "float \<Rightarrow> bool" where
  "fsign w = (2147483648 \<le> unat w)"

definition mag :: "float \<Rightarrow> nat" where
  "mag w = unat w mod 2147483648"

definition inf_code :: nat where
  "inf_code = 2139095040"

definition is_nan :: "float \<Rightarrow> bool" where
  "is_nan w = (inf_code < mag w)"

definition scaled :: "nat \<Rightarrow> nat" where
  "scaled m = (if m < 8388608 then m else (8388608 + m mod 8388608) * 2 ^ (m div 8388608 - 1))"

definition magval :: "nat \<Rightarrow> real" where
  "magval m = real (scaled m) / 2 ^ 149"

definition valof :: "float \<Rightarrow> real" where
  "valof w = (if fsign w then - magval (mag w) else magval (mag w))"

definition mk_float :: "bool \<Rightarrow> nat \<Rightarrow> float" where
  "mk_float s m = of_nat (if s then 2147483648 + m else m)"

text \<open>
  Rounding to nearest, ties to even. \<open>round_code le lt\<close> is the code of the magnitude
  nearest to a real \<open>X \<ge> 0\<close> that is given by its comparisons: \<open>le t\<close> is \<open>t \<le> X\<close> and
  \<open>lt t\<close> is \<open>t < X\<close>. \<open>floor_code\<close> finds, bit by bit from the top, the largest code
  whose magnitude is at most \<open>X\<close>; \<open>round_code\<close> then takes that code or the next one,
  whichever is nearer, and the even one of the two when \<open>X\<close> is half way. A number at
  least half way from the largest finite float to \<open>2^128\<close> rounds to infinity.
  \<open>fround s x\<close> is the float nearest to the real \<open>x\<close>; \<open>s\<close> is the sign of the result
  when \<open>x\<close> is 0.
\<close>

primrec search :: "(nat \<Rightarrow> bool) \<Rightarrow> nat \<Rightarrow> nat \<Rightarrow> nat" where
  "search P 0 m = m"
| "search P (Suc i) m = (if P (m + 2 ^ i) then search P i (m + 2 ^ i) else search P i m)"

definition floor_code :: "(real \<Rightarrow> bool) \<Rightarrow> nat" where
  "floor_code le = search (\<lambda>m. m \<le> inf_code \<and> le (magval m)) 31 0"

definition round_code :: "(real \<Rightarrow> bool) \<Rightarrow> (real \<Rightarrow> bool) \<Rightarrow> nat" where
  "round_code le lt =
     (let m = floor_code le in
      if m = inf_code then m
      else
        let mid = (magval m + magval (Suc m)) / 2 in
        if lt mid then Suc m else if le mid \<and> odd m then Suc m else m)"

definition fround :: "bool \<Rightarrow> real \<Rightarrow> float" where
  "fround s x = mk_float (x < 0 \<or> x = 0 \<and> s) (round_code (\<lambda>t. t \<le> \<bar>x\<bar>) (\<lambda>t. t < \<bar>x\<bar>))"

text \<open>
  The operations of \<^verbatim>\<open>calcFade\<close>, for a target that evaluates \<^verbatim>\<open>float\<close> expressions in
  single precision with the default rounding and with subnormal numbers (as x86-64
  does): each one returns the float nearest to the exact result, \<^verbatim>\<open>::sqrtf\<close> included.
  The cases with a NaN, an infinity or a zero divisor are those of IEEE 754; an exact
  zero sum is \<open>+0\<close> unless both terms are \<open>-0\<close>, and a zero quotient has the sign of its
  operands' signs combined. Which NaN an operation returns depends on the target: the
  model returns the quiet NaN \<open>f_nan\<close> for every one of them, and nothing in the file
  reads the sign or the payload of a NaN. A comparison with a NaN is false.
  \<open>f_zero\<close>, \<open>f_one\<close>, \<open>f_two\<close> and \<open>f_minus_one\<close> are the floats \<open>0\<close>, \<open>1\<close>, \<open>2\<close> and
  \<open>-1\<close>, to which the literals of the source are converted.
\<close>

definition is_inf :: "float \<Rightarrow> bool" where
  "is_inf w = (mag w = inf_code)"

definition is_zero :: "float \<Rightarrow> bool" where
  "is_zero w = (mag w = 0)"

definition f_zero :: float where "f_zero = 0"
definition f_one :: float where "f_one = 1065353216"
definition f_two :: float where "f_two = 1073741824"
definition f_minus_one :: float where "f_minus_one = 3212836864"
definition f_nan :: float where "f_nan = 2143289344"

definition fneg :: "float \<Rightarrow> float" where
  "fneg w = mk_float (\<not> fsign w) (mag w)"

definition fadd :: "float \<Rightarrow> float \<Rightarrow> float" where
  "fadd a b =
     (if is_nan a \<or> is_nan b then f_nan
      else if is_inf a then (if is_inf b \<and> fsign a \<noteq> fsign b then f_nan else a)
      else if is_inf b then b
      else fround (fsign a \<and> fsign b) (valof a + valof b))"

definition fsub :: "float \<Rightarrow> float \<Rightarrow> float" where
  "fsub a b =
     (if is_nan a \<or> is_nan b then f_nan
      else if is_inf a then (if is_inf b \<and> fsign a = fsign b then f_nan else a)
      else if is_inf b then fneg b
      else fround (fsign a \<and> \<not> fsign b) (valof a - valof b))"

definition fdiv :: "float \<Rightarrow> float \<Rightarrow> float" where
  "fdiv a b =
     (if is_nan a \<or> is_nan b then f_nan
      else if is_inf a then (if is_inf b then f_nan else mk_float (fsign a \<noteq> fsign b) inf_code)
      else if is_inf b then mk_float (fsign a \<noteq> fsign b) 0
      else if is_zero b then (if is_zero a then f_nan else mk_float (fsign a \<noteq> fsign b) inf_code)
      else fround (fsign a \<noteq> fsign b) (valof a / valof b))"

definition sqrtf :: "float \<Rightarrow> float" where
  "sqrtf a =
     (if is_nan a then f_nan
      else if is_zero a then a
      else if fsign a then f_nan
      else if is_inf a then a
      else mk_float False (round_code (\<lambda>t. t * t \<le> valof a) (\<lambda>t. t * t < valof a)))"

definition flt :: "float \<Rightarrow> float \<Rightarrow> bool" where
  "flt a b = (\<not> is_nan a \<and> \<not> is_nan b \<and> valof a < valof b)"

definition fle :: "float \<Rightarrow> float \<Rightarrow> bool" where
  "fle a b = (\<not> is_nan a \<and> \<not> is_nan b \<and> valof a \<le> valof b)"

definition fgt :: "float \<Rightarrow> float \<Rightarrow> bool" where
  "fgt a b = flt b a"

section \<open>Grit objects: data model of \<^verbatim>\<open>engine/grit_object.cpp\<close>\<close>

text \<open>
  A \<^verbatim>\<open>GritObjectPtr\<close> is a counted pointer to a C++ object. It is modelled as an address
  (\<open>handle\<close>) into a store of object records; a null pointer is \<open>None\<close>. A counted
  pointer always points to an object, so the store is a total function: addresses that
  \<^verbatim>\<open>new\<close> never returned hold some record that no operation reaches.
\<close>

type_synonym handle = nat
type_synonym vec3 = "float \<times> float \<times> float"

datatype error =
    ContractViolation  \<comment> \<open>\<^verbatim>\<open>GRIT_EXCEPT("Object destroyed")\<close>\<close>
  | NotFound           \<comment> \<open>\<^verbatim>\<open>GRIT_EXCEPT("GritObject does not exist: ...")\<close>\<close>
  | NullDereference    \<comment> \<open>\<^verbatim>\<open>gritClass->release(L)\<close> through a null \<^verbatim>\<open>gritClass\<close>\<close>

text \<open>
  Modelled from the spec: the scripting host and the hooks it runs, which are no part of
  the file. A scripted call runs to completion: it returns or raises an error, and while
  it runs it may call back into the file (a hook may delete other objects). What matters
  of a Lua function called by \<^verbatim>\<open>lua_pcall\<close> is therefore the calls it makes back into
  the file and how it ends: a script is the list of those calls, followed by its status.
  The calls modelled are the ones through which a hook changes the registry and the
  hot-sets: \<^verbatim>\<open>object_del\<close>, \<^verbatim>\<open>object_add\<close>, \<^verbatim>\<open>setNeedsFrameCallbacks\<close> and
  \<^verbatim>\<open>setNeedsStepCallbacks\<close>.
\<close>

datatype cmd =
    CDel handle
  | CAdd string string
  | CSetFrame handle bool
  | CSetStep handle bool

datatype lua_status =
    Returned bool  \<comment> \<open>\<^verbatim>\<open>lua_pcall\<close> returned 0; the flag is \<^verbatim>\<open>lua_toboolean\<close> of the result\<close>
  | Raised         \<comment> \<open>\<^verbatim>\<open>lua_pcall\<close> returned a nonzero status\<close>

record hook =
  body :: "cmd list"
  status :: lua_status

text \<open>
  Modelled from the spec: the class \<^verbatim>\<open>GritClass\<close> (of \<^verbatim>\<open>grit_class.h\<close>), with
  its \<^verbatim>\<open>acquire()/release()\<close> reference count and its \<^verbatim>\<open>get(name, field)\<close> lookup of a
  shared behaviour. A \<^verbatim>\<open>GritClass *\<close> is modelled as the class's name.
\<close>

record grit_class =
  refCount :: int
  class_fields :: "string \<Rightarrow> hook option"

text \<open>
  Modelled from the spec: the fields of \<^verbatim>\<open>GritObject\<close> (declared in \<^verbatim>\<open>grit_object.h\<close>)
  that \<^verbatim>\<open>grit_object.cpp\<close> reads or writes. The constructor of
  the file names the first nine. \<open>lua\<close> is the registry reference of the instance table
  (\<^verbatim>\<open>LUA_NOREF\<close> is \<open>None\<close>); \<open>index\<close>, \<open>pos\<close> and \<open>obj_r\<close> (the field \<^verbatim>\<open>r\<close>) are the
  spatial sphere; \<open>nearObj\<close> and \<open>farObj\<close> are the neighbour references; \<open>userValues\<close> is
  the per-instance value table; \<open>demand_loaded\<close> and \<open>demand_load_fails\<close> stand for the
  demand-load collaborator (\<^verbatim>\<open>demand.loaded()\<close>, and whether \<^verbatim>\<open>demand.immediateLoad()\<close>
  raises).
\<close>

record grit_object =
  name :: string
  anonymous :: bool
  gritClass :: "string option"
  lua :: "nat option"
  needsFrameCallbacks :: bool
  needsStepCallbacks :: bool
  demandRegistered :: bool
  imposedFarFade :: float
  lastFade :: float
  index :: int
  pos :: vec3
  obj_r :: float
  nearObj :: "handle option"
  farObj :: "handle option"
  userValues :: "string \<Rightarrow> hook option"
  demand_loaded :: bool
  demand_load_fails :: bool

text \<open>
  The state that the file's functions work on. \<open>objs\<close>, the two hot-sets and
  \<open>name_generation_counter\<close> are the file's static variables (the counter is an
  \<^verbatim>\<open>unsigned long long\<close>); the iteration order of \<^verbatim>\<open>GObjMap\<close> and \<^verbatim>\<open>GObjSet\<close> is the
  order of the lists. \<open>heap\<close> is the store of objects, \<open>next_handle\<close> the address that
  \<^verbatim>\<open>new\<close> returns next, \<open>next_ref\<close> the reference that \<^verbatim>\<open>luaL_ref\<close> returns next.
  \<open>lua_calls\<close> logs each \<^verbatim>\<open>lua_pcall\<close> of a hook: the object and the hook's name.

  Modelled from the spec: the collaborators' state, which is the class registry
  (\<open>classes\<close>) and the streamer: the objects it lists (\<open>streamer_objs\<close>), the ones it
  lists as activated (\<open>streamer_activated\<close>), the log \<open>sphere_updates\<close> of its
  \<^verbatim>\<open>update_sphere\<close> calls, and its two tunable constants.
\<close>

record world =
  objs :: "(string \<times> handle) list"
  objs_needing_frame_callbacks :: "handle list"
  objs_needing_step_callbacks :: "handle list"
  name_generation_counter :: "64 word"
  heap :: "handle \<Rightarrow> grit_object"
  next_handle :: handle
  next_ref :: nat
  classes :: "string \<Rightarrow> grit_class"
  streamer_objs :: "handle list"
  streamer_activated :: "handle list"
  sphere_updates :: "(int \<times> vec3 \<times> float) list"
  streamer_fade_out_factor :: float
  streamer_fade_overlap_factor :: float
  lua_calls :: "(handle \<times> string) list"

subsection \<open>Results\<close>

text \<open>
  A call that runs hooks may not return: a hook calls back into the file, and the calls
  it makes run hooks in turn. The result of such a call is \<open>None\<close> when it does not
  return, \<open>Some (Inl e)\<close> when it throws the C++ exception \<open>e\<close>, and \<open>Some (Inr x)\<close> when
  it returns \<open>x\<close>. A function that runs no hook returns \<open>Inl e\<close> or \<open>Inr x\<close>.
\<close>

type_synonym 'a res = "(error + 'a) option"

definition ok :: "'a \<Rightarrow> 'a res" where
  "ok x = Some (Inr x)"

definition raise :: "error \<Rightarrow> 'a res" where
  "raise e = Some (Inl e)"

definition rbind :: "'a res \<Rightarrow> ('a \<Rightarrow> 'b res) \<Rightarrow> 'b res" where
  "rbind m f = (case m of None \<Rightarrow> None | Some (Inl e) \<Rightarrow> Some (Inl e) | Some (Inr x) \<Rightarrow> f x)"

definition lift :: "error + 'a \<Rightarrow> 'a res" where
  "lift m = Some m"

subsection \<open>Small operations\<close>

definition upd_obj :: "handle \<Rightarrow> (grit_object \<Rightarrow> grit_object) \<Rightarrow> world \<Rightarrow> world" where
  "upd_obj h f st = st\<lparr>heap := (heap st)(h := f (heap st h))\<rparr>"

text \<open>
  Modelled from the spec: \<^verbatim>\<open>isActivated()\<close> (defined in \<^verbatim>\<open>grit_object.h\<close>), the activation
  flag, derived: the scripted-instance handle is valid.
\<close>

definition isActivated :: "grit_object \<Rightarrow> bool" where
  "isActivated ob = (lua ob \<noteq> None)"

text \<open>
  The constructor (without its call of \<^verbatim>\<open>gritClass->acquire()\<close>, which \<open>object_add\<close>
  makes in the model). It leaves the sphere, the neighbours, the values and the demand to
  their own constructors: the model starts them unindexed, null, empty and not loaded.
\<close>

definition GritObject_new :: "string \<Rightarrow> string \<Rightarrow> grit_object" where
  "GritObject_new nm cls =
     \<lparr> name = nm, anonymous = False, gritClass = Some cls, lua = None,
       needsFrameCallbacks = False, needsStepCallbacks = False, demandRegistered = False,
       imposedFarFade = f_one, lastFade = f_minus_one,
       index = - 1, pos = (f_zero, f_zero, f_zero), obj_r = f_zero, nearObj = None, farObj = None,
       userValues = (\<lambda>_. None), demand_loaded = False, demand_load_fails = False \<rparr>"

text \<open>
  Modelled from the spec: \<^verbatim>\<open>GritClass::acquire()\<close> and \<^verbatim>\<open>GritClass::release(L)\<close>, the
  reference counting of the class registry.
\<close>

definition acquire :: "string \<Rightarrow> world \<Rightarrow> world" where
  "acquire c st =
     st\<lparr>classes := (classes st)(c := (classes st c)\<lparr>refCount := refCount (classes st c) + 1\<rparr>)\<rparr>"

definition release :: "string \<Rightarrow> world \<Rightarrow> world" where
  "release c st =
     st\<lparr>classes := (classes st)(c := (classes st c)\<lparr>refCount := refCount (classes st c) - 1\<rparr>)\<rparr>"

text \<open>
  Modelled from the spec: \<^verbatim>\<open>setNearObj(self, GritObjectPtr())\<close> and
  \<^verbatim>\<open>setFarObj(self, GritObjectPtr())\<close> (defined in \<^verbatim>\<open>grit_object.h\<close>) unlink the
  neighbour references, each direction: the object forgets its neighbour and the
  neighbour forgets the reference back.
\<close>

definition setNearObj_null :: "handle \<Rightarrow> world \<Rightarrow> world" where
  "setNearObj_null self st =
     (case nearObj (heap st self) of
        None \<Rightarrow> st
      | Some n \<Rightarrow> upd_obj n (\<lambda>ob. ob\<lparr>farObj := None\<rparr>) (upd_obj self (\<lambda>ob. ob\<lparr>nearObj := None\<rparr>) st))"

definition setFarObj_null :: "handle \<Rightarrow> world \<Rightarrow> world" where
  "setFarObj_null self st =
     (case farObj (heap st self) of
        None \<Rightarrow> st
      | Some n \<Rightarrow> upd_obj n (\<lambda>ob. ob\<lparr>nearObj := None\<rparr>) (upd_obj self (\<lambda>ob. ob\<lparr>farObj := None\<rparr>) st))"

text \<open>Modelled from the spec: the streamer's \<^verbatim>\<open>list/unlist\<close> and \<^verbatim>\<open>list_as_activated/unlist_as_activated\<close>.\<close>

definition streamer_list :: "handle \<Rightarrow> world \<Rightarrow> world" where
  "streamer_list h st = st\<lparr>streamer_objs := List.insert h (streamer_objs st)\<rparr>"

definition streamer_unlist :: "handle \<Rightarrow> world \<Rightarrow> world" where
  "streamer_unlist h st = st\<lparr>streamer_objs := removeAll h (streamer_objs st)\<rparr>"

definition streamer_list_as_activated :: "handle \<Rightarrow> world \<Rightarrow> world" where
  "streamer_list_as_activated h st = st\<lparr>streamer_activated := List.insert h (streamer_activated st)\<rparr>"

definition streamer_unlist_as_activated :: "handle \<Rightarrow> world \<Rightarrow> world" where
  "streamer_unlist_as_activated h st = st\<lparr>streamer_activated := removeAll h (streamer_activated st)\<rparr>"

definition streamer_update_sphere :: "int \<Rightarrow> vec3 \<Rightarrow> float \<Rightarrow> world \<Rightarrow> world" where
  "streamer_update_sphere i p rad st = st\<lparr>sphere_updates := sphere_updates st @ [(i, p, rad)]\<rparr>"

text \<open>
  Modelled from the spec: \<^verbatim>\<open>tryUnloadResources()\<close> asks the demand-load system to drop the
  resources it holds, and \<^verbatim>\<open>userValues.destroy(L)\<close> releases the instance's values.
\<close>

definition tryUnloadResources :: "handle \<Rightarrow> world \<Rightarrow> world" where
  "tryUnloadResources h st = upd_obj h (\<lambda>ob. ob\<lparr>demand_loaded := False\<rparr>) st"

definition userValues_destroy :: "handle \<Rightarrow> world \<Rightarrow> world" where
  "userValues_destroy h st = upd_obj h (\<lambda>ob. ob\<lparr>userValues := (\<lambda>_. None)\<rparr>) st"

subsection \<open>\<^verbatim>\<open>GritObject::getField\<close>, \<^verbatim>\<open>setNeedsFrameCallbacks\<close>, \<^verbatim>\<open>setNeedsStepCallbacks\<close>\<close>

text \<open>
  \<open>getField\<close> leaves the value on the Lua stack: \<open>None\<close> is nil. \<^verbatim>\<open>userValues.luaGet\<close>
  is taken to find the key or nil and never to report an error of its own.
\<close>

definition getField :: "world \<Rightarrow> handle \<Rightarrow> string \<Rightarrow> error + hook option" where
  "getField st self f =
     (case gritClass (heap st self) of
        None \<Rightarrow> Inl ContractViolation
      | Some c \<Rightarrow>
          (case userValues (heap st self) f of
             Some v \<Rightarrow> Inr (Some v)
           | None \<Rightarrow> Inr (class_fields (classes st c) f)))"

definition setNeedsFrameCallbacks :: "world \<Rightarrow> handle \<Rightarrow> bool \<Rightarrow> error + world" where
  "setNeedsFrameCallbacks st self v =
     (if gritClass (heap st self) = None then Inl ContractViolation
      else if v = needsFrameCallbacks (heap st self) then Inr st
      else
        let st1 = upd_obj self (\<lambda>ob. ob\<lparr>needsFrameCallbacks := v\<rparr>) st in
        if \<not> v
        then Inr (st1\<lparr>objs_needing_frame_callbacks := removeAll self (objs_needing_frame_callbacks st1)\<rparr>)
        else Inr (st1\<lparr>objs_needing_frame_callbacks := List.insert self (objs_needing_frame_callbacks st1)\<rparr>))"

definition setNeedsStepCallbacks :: "world \<Rightarrow> handle \<Rightarrow> bool \<Rightarrow> error + world" where
  "setNeedsStepCallbacks st self v =
     (if gritClass (heap st self) = None then Inl ContractViolation
      else if v = needsStepCallbacks (heap st self) then Inr st
      else
        let st1 = upd_obj self (\<lambda>ob. ob\<lparr>needsStepCallbacks := v\<rparr>) st in
        if \<not> v
        then Inr (st1\<lparr>objs_needing_step_callbacks := removeAll self (objs_needing_step_callbacks st1)\<rparr>)
        else Inr (st1\<lparr>objs_needing_step_callbacks := List.insert self (objs_needing_step_callbacks st1)\<rparr>))"

subsection \<open>\<^verbatim>\<open>GritObject::updateSphere\<close>\<close>

definition updateSphere :: "world \<Rightarrow> handle \<Rightarrow> vec3 \<Rightarrow> float \<Rightarrow> error + world" where
  "updateSphere st self p rad =
     (if index (heap st self) = - 1 then Inr st
      else
        let st1 = upd_obj self (\<lambda>ob. ob\<lparr>pos := p, obj_r := rad\<rparr>) st in
        Inr (streamer_update_sphere (index (heap st1 self)) (pos (heap st1 self)) (obj_r (heap st1 self)) st1))"

definition updateSphere_pos :: "world \<Rightarrow> handle \<Rightarrow> vec3 \<Rightarrow> error + world" where
  "updateSphere_pos st self p = updateSphere st self p (obj_r (heap st self))"

definition updateSphere_r :: "world \<Rightarrow> handle \<Rightarrow> float \<Rightarrow> error + world" where
  "updateSphere_r st self rad = updateSphere st self (pos (heap st self)) rad"

subsection \<open>\<^verbatim>\<open>GritObject::calcFade\<close>\<close>

text \<open>
  The result is the returned fade, the flag \<^verbatim>\<open>overlap\<close> (a reference parameter) and the
  world, in which the object's \<open>imposedFarFade\<close> has been written.
\<close>

definition calcFade :: "world \<Rightarrow> handle \<Rightarrow> float \<Rightarrow> bool \<Rightarrow> float \<times> bool \<times> world" where
  "calcFade st self range2 overlap =
     (let the_near = nearObj (heap st self);
          the_far = farObj (heap st self);
          out = streamer_fade_out_factor st;
          over = streamer_fade_overlap_factor st;
          range = sqrtf range2;
          near_active = (case the_near of None \<Rightarrow> False | Some n \<Rightarrow> isActivated (heap st n));
          fade0 = (case the_near of
                     None \<Rightarrow> f_one
                   | Some n \<Rightarrow> if isActivated (heap st n) then imposedFarFade (heap st n) else f_one);
          overlap1 = (if near_active \<and> flt fade0 f_one then True else overlap);
          (fade1, iff1) =
            (if the_far = None then
               ((if fgt range out then fdiv (fsub f_one range) (fsub f_one out) else fade0), f_one)
             else
               let overmid = fdiv (fadd over f_one) f_two in
               if fgt range overmid then (fdiv (fsub f_one range) (fsub f_one overmid), f_one)
               else if fgt range over
                    then (fade0, fsub f_one (fdiv (fsub overmid range) (fsub overmid over)))
                    else (fade0, f_zero));
          fade2 = (if flt fade1 f_zero then f_zero else fade1);
          iff2 = (if flt iff1 f_zero then f_zero else iff1)
      in (fade2, overlap1, upd_obj self (\<lambda>ob. ob\<lparr>imposedFarFade := iff2\<rparr>) st))"

subsection \<open>The registry: \<^verbatim>\<open>object_add\<close>, \<^verbatim>\<open>object_del\<close> and the calls that run hooks\<close>

text \<open>\<^verbatim>\<open>ss << name_generation_counter\<close> prints the counter in decimal.\<close>

definition digit :: "nat \<Rightarrow> char" where
  "digit d = ''0123456789'' ! d"

function dec :: "nat \<Rightarrow> string" where
  "dec n = (if n < 10 then [digit n] else dec (n div 10) @ [digit (n mod 10)])"
  by pat_completeness auto
termination
  by (relation "measure id") auto

declare dec.simps [simp del]

definition unnamed :: "string \<Rightarrow> 64 word \<Rightarrow> string" where
  "unnamed cls c = ''Unnamed:'' @ cls @ '':'' @ dec (unat c)"

text \<open>
  The \<^verbatim>\<open>do ... while\<close> loop of \<open>object_add\<close>: it returns the name and the counter it
  leaves. The counter is an \<^verbatim>\<open>unsigned long long\<close>: it wraps around. The loop does not
  return when every name it can build is taken.
\<close>

partial_function (option) gen_name :: "(string \<times> handle) list \<Rightarrow> string \<Rightarrow> 64 word \<Rightarrow> (string \<times> 64 word) option" where
  "gen_name al cls c =
     (if map_of al (unnamed cls c) \<noteq> None then gen_name al cls (c + 1)
      else Some (unnamed cls c, c + 1))"

text \<open>
  The functions below take the Lua state \<^verbatim>\<open>L\<close> as the source does. In the model \<open>L\<close> is
  what the state is used for: running the commands of a hook. \<open>deactivate\<close> runs the
  hook through \<open>L\<close>, and the hook's commands call \<open>object_del\<close> and \<open>object_add\<close>
  again (\<open>run_cmds\<close>, below, closes the circle).

  Modelled from the spec: an exception that a command raises inside a hook is not
  contained by \<^verbatim>\<open>lua_pcall\<close> (only ContractViolation escalates past the core, and it does).
\<close>

type_synonym lua_State = "world \<Rightarrow> cmd list \<Rightarrow> world res"

definition pcall :: "lua_State \<Rightarrow> world \<Rightarrow> handle \<Rightarrow> string \<Rightarrow> hook \<Rightarrow> (lua_status \<times> world) res" where
  "pcall L st self f hk =
     rbind (L (st\<lparr>lua_calls := lua_calls st @ [(self, f)]\<rparr>) (body hk))
       (\<lambda>st1. ok (status hk, st1))"

definition deactivate :: "lua_State \<Rightarrow> world \<Rightarrow> handle \<Rightarrow> (bool \<times> world) res" where
  "deactivate L st self =
     (if gritClass (heap st self) = None then raise ContractViolation
      else if \<not> isActivated (heap st self) then ok (False, st)
      else
        let st1 = streamer_unlist_as_activated self st in
        case getField st1 self ''deactivate'' of
          Inl e \<Rightarrow> raise e
        | Inr None \<Rightarrow> ok (True, upd_obj self (\<lambda>ob. ob\<lparr>lua := None\<rparr>) st1)
        | Inr (Some hk) \<Rightarrow>
            rbind (pcall L st1 self ''deactivate'' hk)
              (\<lambda>(stat, st2).
                 let killme = (case stat of Raised \<Rightarrow> True | Returned b \<Rightarrow> b)
                 in ok (killme, upd_obj self (\<lambda>ob. ob\<lparr>lua := None\<rparr>) st2)))"

definition destroy :: "lua_State \<Rightarrow> world \<Rightarrow> handle \<Rightarrow> world res" where
  "destroy L st self =
     (if gritClass (heap st self) = None then ok st
      else
        let st1 = (if needsFrameCallbacks (heap st self)
                   then st\<lparr>objs_needing_frame_callbacks := removeAll self (objs_needing_frame_callbacks st)\<rparr>
                   else st);
            st2 = (if needsStepCallbacks (heap st1 self)
                   then st1\<lparr>objs_needing_step_callbacks := removeAll self (objs_needing_step_callbacks st1)\<rparr>
                   else st1);
            st3 = setNearObj_null self st2;
            st4 = setFarObj_null self st3
        in rbind (deactivate L st4 self)
             (\<lambda>(killme, st5).
                case gritClass (heap st5 self) of
                  None \<Rightarrow> raise NullDereference
                | Some c \<Rightarrow>
                    let st6 = release c st5;
                        st7 = upd_obj self (\<lambda>ob. ob\<lparr>gritClass := None\<rparr>) st6;
                        st8 = tryUnloadResources self st7
                    in ok (userValues_destroy self st8)))"

definition object_del :: "lua_State \<Rightarrow> world \<Rightarrow> handle \<Rightarrow> world res" where
  "object_del L st ob_h =
     rbind (destroy L st ob_h)
       (\<lambda>st1.
          let st2 = streamer_unlist ob_h st1 in
          if map_of (objs st2) (name (heap st2 ob_h)) \<noteq> None
          then ok (st2\<lparr>objs := AList.delete (name (heap st2 ob_h)) (objs st2)\<rparr>)
          else ok st2)"

definition object_add :: "lua_State \<Rightarrow> world \<Rightarrow> string \<Rightarrow> string \<Rightarrow> (handle \<times> world) res" where
  "object_add L st nm0 grit_class =
     (case (if nm0 = [] then gen_name (objs st) grit_class (name_generation_counter st)
            else Some (nm0, name_generation_counter st)) of
        None \<Rightarrow> None
      | Some (nm, cnt) \<Rightarrow>
          rbind
            (case map_of (objs st) nm of
               None \<Rightarrow> ok (st\<lparr>name_generation_counter := cnt\<rparr>)
             | Some old \<Rightarrow> object_del L (st\<lparr>name_generation_counter := cnt\<rparr>) old)
            (\<lambda>st1.
               let self = next_handle st1;
                   st2 = acquire grit_class
                           (st1\<lparr>heap := (heap st1)(self := GritObject_new nm grit_class),
                                next_handle := Suc self\<rparr>);
                   st3 = upd_obj self (\<lambda>ob. ob\<lparr>anonymous := (nm0 = [])\<rparr>) st2;
                   st4 = st3\<lparr>objs := AList.update nm self (objs st3)\<rparr>
               in ok (self, streamer_list self st4)))"

text \<open>One command of a hook: the call back into the file that it stands for.\<close>

definition exec_cmd :: "lua_State \<Rightarrow> world \<Rightarrow> cmd \<Rightarrow> world res" where
  "exec_cmd L st c =
     (case c of
        CDel h \<Rightarrow> object_del L st h
      | CAdd nm cls \<Rightarrow> rbind (object_add L st nm cls) (\<lambda>(h, st1). ok st1)
      | CSetFrame h v \<Rightarrow> lift (setNeedsFrameCallbacks st h v)
      | CSetStep h v \<Rightarrow> lift (setNeedsStepCallbacks st h v))"

text \<open>
  The Lua state with fuel \<open>n\<close>: a hook's commands run in order, each one with the Lua
  state of fuel \<open>n - 1\<close> for the hooks that it runs in turn. A hook with no command
  needs no fuel.
\<close>

fun run_cmds :: "nat \<Rightarrow> world \<Rightarrow> cmd list \<Rightarrow> world res" where
  "run_cmds n st [] = ok st"
| "run_cmds 0 st (c # cs) = None"
| "run_cmds (Suc n) st (c # cs) =
     rbind (exec_cmd (\<lambda>s xs. run_cmds n s xs) st c) (\<lambda>st1. run_cmds (Suc n) st1 cs)"

subsection \<open>\<^verbatim>\<open>notifyFade\<close>, \<^verbatim>\<open>activate\<close>, \<^verbatim>\<open>init\<close>, \<^verbatim>\<open>frameCallback\<close>, \<^verbatim>\<open>stepCallback\<close>\<close>

text \<open>
  The arguments that a hook receives besides the object (\<open>fade\<close>, \<open>elapsed\<close>) are
  passed to the script and change nothing in the model.
\<close>

definition notifyFade :: "lua_State \<Rightarrow> world \<Rightarrow> handle \<Rightarrow> float \<Rightarrow> world res" where
  "notifyFade L st self fade =
     (if gritClass (heap st self) = None then raise ContractViolation
      else if \<not> isActivated (heap st self) then ok st
      else
        case getField st self ''setFade'' of
          Inl e \<Rightarrow> raise e
        | Inr None \<Rightarrow> ok st
        | Inr (Some hk) \<Rightarrow>
            rbind (pcall L st self ''setFade'' hk)
              (\<lambda>(stat, st1). case stat of Raised \<Rightarrow> object_del L st1 self | Returned b \<Rightarrow> ok st1))"

definition activate :: "lua_State \<Rightarrow> world \<Rightarrow> handle \<Rightarrow> world res" where
  "activate L st self =
     (if isActivated (heap st self) then ok st
      else if gritClass (heap st self) = None then raise ContractViolation
      else if \<not> demand_loaded (heap st self) \<and> demand_load_fails (heap st self)
      then object_del L st self
      else
        let st1 = (if \<not> demand_loaded (heap st self)
                   then upd_obj self (\<lambda>ob. ob\<lparr>demand_loaded := True\<rparr>) st else st) in
        case getField st1 self ''activate'' of
          Inl e \<Rightarrow> raise e
        | Inr None \<Rightarrow> object_del L st1 self
        | Inr (Some hk) \<Rightarrow>
            let st2 = (upd_obj self (\<lambda>ob. ob\<lparr>lua := Some (next_ref st1)\<rparr>) st1)\<lparr>next_ref := Suc (next_ref st1)\<rparr> in
            rbind (pcall L st2 self ''activate'' hk)
              (\<lambda>(stat, st3).
                 case stat of
                   Raised \<Rightarrow> object_del L st3 self
                 | Returned b \<Rightarrow>
                     ok (upd_obj self (\<lambda>ob. ob\<lparr>lastFade := f_minus_one\<rparr>) (streamer_list_as_activated self st3))))"

definition init :: "lua_State \<Rightarrow> world \<Rightarrow> handle \<Rightarrow> world res" where
  "init L st self =
     (if gritClass (heap st self) = None then raise ContractViolation
      else
        case getField st self ''init'' of
          Inl e \<Rightarrow> raise e
        | Inr None \<Rightarrow> object_del L st self
        | Inr (Some hk) \<Rightarrow>
            rbind (pcall L st self ''init'' hk)
              (\<lambda>(stat, st1). case stat of Raised \<Rightarrow> object_del L st1 self | Returned b \<Rightarrow> ok st1))"

definition frameCallback :: "lua_State \<Rightarrow> world \<Rightarrow> handle \<Rightarrow> float \<Rightarrow> (bool \<times> world) res" where
  "frameCallback L st self elapsed =
     (if gritClass (heap st self) = None then raise ContractViolation
      else
        case getField st self ''frameCallback'' of
          Inl e \<Rightarrow> raise e
        | Inr None \<Rightarrow> ok (False, st)
        | Inr (Some hk) \<Rightarrow>
            rbind (pcall L st self ''frameCallback'' hk)
              (\<lambda>(stat, st1). ok (stat \<noteq> Raised, st1)))"

definition stepCallback :: "lua_State \<Rightarrow> world \<Rightarrow> handle \<Rightarrow> float \<Rightarrow> (bool \<times> world) res" where
  "stepCallback L st self elapsed =
     (if gritClass (heap st self) = None then raise ContractViolation
      else
        case getField st self ''stepCallback'' of
          Inl e \<Rightarrow> raise e
        | Inr None \<Rightarrow> ok (False, st)
        | Inr (Some hk) \<Rightarrow>
            rbind (pcall L st self ''stepCallback'' hk)
              (\<lambda>(stat, st1). ok (stat \<noteq> Raised, st1)))"

subsection \<open>The registry's queries and sweeps\<close>

definition object_get :: "world \<Rightarrow> string \<Rightarrow> error + handle" where
  "object_get st nm = (case map_of (objs st) nm of None \<Rightarrow> Inl NotFound | Some h \<Rightarrow> Inr h)"

definition object_has :: "world \<Rightarrow> string \<Rightarrow> bool" where
  "object_has st nm = (map_of (objs st) nm \<noteq> None)"

definition object_all :: "world \<Rightarrow> (string \<times> handle) list" where
  "object_all st = objs st"

text \<open>\<^verbatim>\<open>object_count\<close> returns \<^verbatim>\<open>objs.size()\<close> as an \<^verbatim>\<open>int\<close>: 32 bits, read with \<open>sint\<close>.\<close>

definition object_count :: "world \<Rightarrow> 32 word" where
  "object_count st = of_nat (length (objs st))"

text \<open>The loop of \<^verbatim>\<open>object_all_del\<close> over the copy \<^verbatim>\<open>m\<close> of the map.\<close>

fun all_del_loop :: "lua_State \<Rightarrow> world \<Rightarrow> (string \<times> handle) list \<Rightarrow> world res" where
  "all_del_loop L st [] = ok st"
| "all_del_loop L st (i # m) = rbind (object_del L st (snd i)) (\<lambda>st1. all_del_loop L st1 m)"

definition object_all_del :: "lua_State \<Rightarrow> world \<Rightarrow> world res" where
  "object_all_del L st = (let m = objs st in all_del_loop L st m)"

text \<open>The loops of the two dispatchers over the copy \<^verbatim>\<open>victims\<close> of the hot-set.\<close>

fun frame_loop :: "lua_State \<Rightarrow> world \<Rightarrow> float \<Rightarrow> handle list \<Rightarrow> world res" where
  "frame_loop L st elapsed [] = ok st"
| "frame_loop L st elapsed (i # victims) =
     rbind (frameCallback L st i elapsed)
       (\<lambda>(called, st1).
          rbind (if \<not> called then lift (setNeedsFrameCallbacks st1 i False) else ok st1)
            (\<lambda>st2. frame_loop L st2 elapsed victims))"

definition object_do_frame_callbacks :: "lua_State \<Rightarrow> world \<Rightarrow> float \<Rightarrow> world res" where
  "object_do_frame_callbacks L st elapsed =
     (let victims = objs_needing_frame_callbacks st in frame_loop L st elapsed victims)"

fun step_loop :: "lua_State \<Rightarrow> world \<Rightarrow> float \<Rightarrow> handle list \<Rightarrow> world res" where
  "step_loop L st elapsed [] = ok st"
| "step_loop L st elapsed (i # victims) =
     rbind (stepCallback L st i elapsed)
       (\<lambda>(called, st1).
          rbind (if \<not> called then lift (setNeedsStepCallbacks st1 i False) else ok st1)
            (\<lambda>st2. step_loop L st2 elapsed victims))"

definition object_do_step_callbacks :: "lua_State \<Rightarrow> world \<Rightarrow> float \<Rightarrow> world res" where
  "object_do_step_callbacks L st elapsed =
     (let victims = objs_needing_step_callbacks st in step_loop L st elapsed victims)"

section \<open>Definitions for the statements\<close>

subsection \<open>Floats\<close>

text \<open>
  \<open>nearest X\<close> is the code of the magnitude nearest to the real \<open>X \<ge> 0\<close>, and \<open>rnd x\<close> the
  real that the float nearest to \<open>x\<close> stands for (\<open>\<plusminus>2^128\<close> for an infinity).
  \<open>finite_f\<close>: the float is neither an infinity nor a NaN. \<open>feq\<close> is \<^verbatim>\<open>==\<close> on floats:
  equal values, none of them a NaN.
\<close>

definition nearest :: "real \<Rightarrow> nat" where
  "nearest X = round_code (\<lambda>t. t \<le> X) (\<lambda>t. t < X)"

definition rnd :: "real \<Rightarrow> real" where
  "rnd x = (if x < 0 then - magval (nearest \<bar>x\<bar>) else magval (nearest \<bar>x\<bar>))"

definition finite_f :: "float \<Rightarrow> bool" where
  "finite_f w = (mag w < inf_code)"

definition feq :: "float \<Rightarrow> float \<Rightarrow> bool" where
  "feq a b = (\<not> is_nan a \<and> \<not> is_nan b \<and> valof a = valof b)"

text \<open>
  The fade that \<open>calcFade\<close> writes into the record, and the middle of the overlap band
  as \<open>calcFade\<close> computes it, \<^verbatim>\<open>(over + 1)/2\<close>.
\<close>

definition farFade_after :: "world \<Rightarrow> handle \<Rightarrow> float \<Rightarrow> bool \<Rightarrow> float" where
  "farFade_after st self range2 ov = imposedFarFade (heap (snd (snd (calcFade st self range2 ov))) self)"

definition overmid_of :: "float \<Rightarrow> float" where
  "overmid_of over = fdiv (fadd over f_one) f_two"

subsection \<open>The frame callbacks of a pass\<close>

text \<open>
  \<open>frame_hook\<close> is what \<open>getField\<close> finds under \<^verbatim>\<open>"frameCallback"\<close> for a live object.
  \<open>unsubscribes_only\<close>: the object is live and its frame callback, if it has one, only
  calls \<^verbatim>\<open>setNeedsFrameCallbacks(o, false)\<close> on live objects. \<open>frame_set_mirrors\<close>: every
  member of the frame hot-set has its \<open>needsFrameCallbacks\<close> flag set.
  \<open>stops_frame_calls\<close>: the hook is absent or raises. \<open>frame_calls\<close> is the log of one
  call of the hook for each object of a list that has one. \<open>unsub_step\<close> relates two
  worlds between which only such unsubscriptions and the logged calls have happened.
\<close>

definition frame_hook :: "world \<Rightarrow> handle \<Rightarrow> hook option" where
  "frame_hook st h = (case getField st h ''frameCallback'' of Inl e \<Rightarrow> None | Inr v \<Rightarrow> v)"

definition unsub_cmd :: "world \<Rightarrow> cmd \<Rightarrow> bool" where
  "unsub_cmd st c = (case c of CSetFrame t v \<Rightarrow> \<not> v \<and> gritClass (heap st t) \<noteq> None | _ \<Rightarrow> False)"

definition unsubscribes_only :: "world \<Rightarrow> handle \<Rightarrow> bool" where
  "unsubscribes_only st h =
     (gritClass (heap st h) \<noteq> None \<and>
      (case frame_hook st h of None \<Rightarrow> True | Some hk \<Rightarrow> list_all (unsub_cmd st) (body hk)))"

definition frame_set_mirrors :: "world \<Rightarrow> bool" where
  "frame_set_mirrors st =
     list_all (\<lambda>h. needsFrameCallbacks (heap st h)) (objs_needing_frame_callbacks st)"

definition stops_frame_calls :: "world \<Rightarrow> handle \<Rightarrow> bool" where
  "stops_frame_calls st h = (case frame_hook st h of None \<Rightarrow> True | Some hk \<Rightarrow> status hk = Raised)"

definition frame_calls :: "world \<Rightarrow> handle list \<Rightarrow> (handle \<times> string) list" where
  "frame_calls st vs = map (\<lambda>h. (h, ''frameCallback'')) (filter (\<lambda>h. frame_hook st h \<noteq> None) vs)"

definition unsub_step :: "(handle \<times> string) list \<Rightarrow> world \<Rightarrow> world \<Rightarrow> bool" where
  "unsub_step lg s s' =
     ((\<forall>x. gritClass (heap s' x) = gritClass (heap s x) \<and> userValues (heap s' x) = userValues (heap s x)) \<and>
      classes s' = classes s \<and> lua_calls s' = lua_calls s @ lg \<and>
      set (objs_needing_frame_callbacks s') \<subseteq> set (objs_needing_frame_callbacks s) \<and>
      (frame_set_mirrors s \<longrightarrow> frame_set_mirrors s'))"

subsection \<open>Deactivate hooks that delete\<close>

text \<open>
  \<open>deact_hook\<close> is what \<open>getField\<close> finds under \<^verbatim>\<open>"deactivate"\<close> for a live object.
  \<open>hooks_descend rank\<close>: the deactivate hook of every activated object only deletes
  objects, each of a rank strictly below the rank of the hook's own object; so no chain
  of deletions leads back to an object whose deactivation is under way.
  \<open>keyed_by_name\<close>: every entry of the registry is filed under its record's name.
  \<open>del_step rank b\<close> relates two worlds between which objects of rank below \<open>b\<close> have
  been destroyed and nothing else of an object's class, hooks or name has changed (an
  instance reference may have been cleared). \<open>L_deletes rank n\<close>: the Lua state runs any
  script of deletions of objects of rank below \<open>b \<le> n\<close> to its end.
  \<open>mutual_hooks\<close>: objects 0 and 1 are activated and the deactivate hook of each deletes
  the other.
\<close>

definition deact_hook :: "world \<Rightarrow> handle \<Rightarrow> hook option" where
  "deact_hook st h = (case getField st h ''deactivate'' of Inl e \<Rightarrow> None | Inr v \<Rightarrow> v)"

definition deletes_below :: "(handle \<Rightarrow> nat) \<Rightarrow> nat \<Rightarrow> cmd \<Rightarrow> bool" where
  "deletes_below rank b c = (case c of CDel t \<Rightarrow> rank t < b | _ \<Rightarrow> False)"

definition hooks_descend :: "(handle \<Rightarrow> nat) \<Rightarrow> world \<Rightarrow> bool" where
  "hooks_descend rank st =
     (\<forall>h hk. lua (heap st h) \<noteq> None \<and> deact_hook st h = Some hk \<longrightarrow>
        list_all (deletes_below rank (rank h)) (body hk))"

definition keyed_by_name :: "world \<Rightarrow> bool" where
  "keyed_by_name st = list_all (\<lambda>(k, h). name (heap st h) = k) (objs st)"

definition del_step :: "(handle \<Rightarrow> nat) \<Rightarrow> nat \<Rightarrow> world \<Rightarrow> world \<Rightarrow> bool" where
  "del_step rank b s s' =
     ((\<forall>c. class_fields (classes s' c) = class_fields (classes s c)) \<and>
      (\<forall>x. name (heap s' x) = name (heap s x)) \<and>
      (\<forall>x. (gritClass (heap s' x) = gritClass (heap s x) \<and>
            userValues (heap s' x) = userValues (heap s x) \<and>
            (lua (heap s' x) = lua (heap s x) \<or> lua (heap s' x) = None)) \<or>
           (rank x < b \<and> gritClass (heap s' x) = None)) \<and>
      fst ` set (objs s') \<subseteq> fst ` set (objs s))"

definition L_deletes :: "(handle \<Rightarrow> nat) \<Rightarrow> nat \<Rightarrow> lua_State \<Rightarrow> bool" where
  "L_deletes rank n L =
     (\<forall>s cs b. hooks_descend rank s \<and> list_all (deletes_below rank b) cs \<and> b \<le> n \<longrightarrow>
        (\<exists>s'. L s cs = Some (Inr s') \<and> del_step rank b s s'))"

definition mutual_hooks :: "world \<Rightarrow> bool" where
  "mutual_hooks s =
     (gritClass (heap s 0) = Some ''x'' \<and> lua (heap s 0) \<noteq> None \<and>
      deact_hook s 0 = Some \<lparr>body = [CDel 1], status = Returned False\<rparr> \<and>
      gritClass (heap s 1) = Some ''y'' \<and> lua (heap s 1) \<noteq> None \<and>
      deact_hook s 1 = Some \<lparr>body = [CDel 0], status = Returned False\<rparr>)"

subsection \<open>Deactivate hooks that spare their record\<close>




subsection \<open>Example worlds\<close>

text \<open>
  \<open>empty_world\<close> is the state at program start with both streamer factors at
  \<^verbatim>\<open>0.7f\<close> (the bits \<^verbatim>\<open>0x3F333333\<close>, 1060320051); every address holds a destroyed,
  unindexed record. \<open>pair_world\<close> holds a detail object (0) and its far neighbour (1),
  outside the registry. In \<open>active_pair_world\<close> the detail object is activated and
  imposes the fade \<^verbatim>\<open>0.5f\<close> (\<^verbatim>\<open>0x3F000000\<close>, 1056964608). \<open>overlap1_world\<close> has the
  overlap factor \<^verbatim>\<open>1.0f\<close>, \<open>quarter_world\<close> the fade-out factor \<^verbatim>\<open>0.25f\<close>
  (\<^verbatim>\<open>0x3E800000\<close>, 1048576000).
\<close>

definition blank_object :: grit_object where
  "blank_object = (GritObject_new [] [])\<lparr>gritClass := None\<rparr>"

definition empty_world :: world where
  "empty_world =
     \<lparr> objs = [], objs_needing_frame_callbacks = [], objs_needing_step_callbacks = [],
       name_generation_counter = 0, heap = (\<lambda>_. blank_object), next_handle = 0, next_ref = 0,
       classes = (\<lambda>_. \<lparr>refCount = 0, class_fields = (\<lambda>_. None)\<rparr>),
       streamer_objs = [], streamer_activated = [], sphere_updates = [],
       streamer_fade_out_factor = 1060320051, streamer_fade_overlap_factor = 1060320051,
       lua_calls = [] \<rparr>"

definition pair_world :: world where
  "pair_world =
     empty_world\<lparr>heap := (heap empty_world)
        (0 := (GritObject_new ''detail'' ''c'')\<lparr>farObj := Some 1\<rparr>,
         1 := (GritObject_new ''lod'' ''c'')\<lparr>nearObj := Some 0\<rparr>)\<rparr>"

definition dead_world :: world where
  "dead_world = empty_world\<lparr>heap := (heap empty_world)(0 := blank_object\<lparr>index := 3\<rparr>)\<rparr>"

definition active_pair_world :: world where
  "active_pair_world = upd_obj 0 (\<lambda>ob. ob\<lparr>lua := Some 0, imposedFarFade := 1056964608\<rparr>) pair_world"

definition overlap1_world :: world where
  "overlap1_world = pair_world\<lparr>streamer_fade_overlap_factor := f_one\<rparr>"

definition quarter_world :: world where
  "quarter_world = pair_world\<lparr>streamer_fade_out_factor := 1048576000\<rparr>"

text \<open>
  \<open>twice_added_world\<close>: from the empty world, \<^verbatim>\<open>object_add(L, "a", c)\<close> twice. The second
  call replaces the first record (address 0, now destroyed) by a new one (address 1).
\<close>

definition twice_added_world :: world where
  "twice_added_world =
     (case object_add (run_cmds 0) empty_world ''a'' ''c'' of
        Some (Inr (h1, st1)) \<Rightarrow>
          (case object_add (run_cmds 0) st1 ''a'' ''c'' of
             Some (Inr (h2, st2)) \<Rightarrow> st2
           | _ \<Rightarrow> empty_world)
      | _ \<Rightarrow> empty_world)"

text \<open>\<open>wrap_world\<close>: the empty world with the name counter at its last value, \<open>2^64 - 1\<close>.\<close>

definition wrap_world :: world where
  "wrap_world = empty_world\<lparr>name_generation_counter := - 1\<rparr>"

text \<open>
  \<open>live_world\<close>: two registered objects of class \<^verbatim>\<open>c\<close>. Object 0 (\<^verbatim>\<open>"a"\<close>) is activated,
  subscribed to frame callbacks and linked to its far neighbour, object 1 (\<^verbatim>\<open>"lod"\<close>).
  The class's \<^verbatim>\<open>deactivate\<close> hook deletes object 1 and returns false.
\<close>

definition live_world :: world where
  "live_world =
     empty_world\<lparr>
       objs := [(''a'', 0), (''lod'', 1)],
       objs_needing_frame_callbacks := [0],
       heap := (heap empty_world)
         (0 := (GritObject_new ''a'' ''c'')\<lparr>lua := Some 0, needsFrameCallbacks := True, farObj := Some 1\<rparr>,
          1 := (GritObject_new ''lod'' ''c'')\<lparr>nearObj := Some 0\<rparr>),
       next_handle := 2,
       next_ref := 1,
       classes := (classes empty_world)
         (''c'' := \<lparr>refCount = 2,
                    class_fields = (\<lambda>_. None)(''deactivate'' := Some \<lparr>body = [CDel 1], status = Returned False\<rparr>)\<rparr>),
       streamer_objs := [0, 1],
       streamer_activated := [0]\<rparr>"

text \<open>
  \<open>callback_world\<close>: four objects subscribed to frame callbacks. The callback of object 0
  unsubscribes object 1; object 1 has a callback that does nothing; the class of object 2
  has no \<^verbatim>\<open>frameCallback\<close>; the callback of object 3 raises an error.
  \<open>frame_del_world\<close>: two subscribed objects; the callback of object 0 deletes object 1.
\<close>

definition callback_world :: world where
  "callback_world =
     empty_world\<lparr>
       objs := [(''k0'', 0), (''q1'', 1), (''n2'', 2), (''e3'', 3)],
       objs_needing_frame_callbacks := [0, 1, 2, 3],
       heap := (heap empty_world)
         (0 := (GritObject_new ''k0'' ''k'')\<lparr>needsFrameCallbacks := True\<rparr>,
          1 := (GritObject_new ''q1'' ''q'')\<lparr>needsFrameCallbacks := True\<rparr>,
          2 := (GritObject_new ''n2'' ''n'')\<lparr>needsFrameCallbacks := True\<rparr>,
          3 := (GritObject_new ''e3'' ''e'')\<lparr>needsFrameCallbacks := True\<rparr>),
       next_handle := 4,
       classes := (classes empty_world)
         (''k'' := \<lparr>refCount = 1,
                    class_fields = (\<lambda>_. None)(''frameCallback'' :=
                      Some \<lparr>body = [CSetFrame 1 False], status = Returned True\<rparr>)\<rparr>,
          ''q'' := \<lparr>refCount = 1,
                    class_fields = (\<lambda>_. None)(''frameCallback'' :=
                      Some \<lparr>body = [], status = Returned True\<rparr>)\<rparr>,
          ''n'' := \<lparr>refCount = 1, class_fields = (\<lambda>_. None)\<rparr>,
          ''e'' := \<lparr>refCount = 1,
                    class_fields = (\<lambda>_. None)(''frameCallback'' :=
                      Some \<lparr>body = [], status = Raised\<rparr>)\<rparr>),
       streamer_objs := [0, 1, 2, 3]\<rparr>"

definition frame_del_world :: world where
  "frame_del_world =
     empty_world\<lparr>
       objs := [(''k0'', 0), (''q1'', 1)],
       objs_needing_frame_callbacks := [0, 1],
       heap := (heap empty_world)
         (0 := (GritObject_new ''k0'' ''k'')\<lparr>needsFrameCallbacks := True\<rparr>,
          1 := (GritObject_new ''q1'' ''q'')\<lparr>needsFrameCallbacks := True\<rparr>),
       next_handle := 2,
       classes := (classes empty_world)
         (''k'' := \<lparr>refCount = 1,
                    class_fields = (\<lambda>_. None)(''frameCallback'' :=
                      Some \<lparr>body = [CDel 1], status = Returned True\<rparr>)\<rparr>,
          ''q'' := \<lparr>refCount = 1,
                    class_fields = (\<lambda>_. None)(''frameCallback'' :=
                      Some \<lparr>body = [], status = Returned True\<rparr>)\<rparr>),
       streamer_objs := [0, 1]\<rparr>"

text \<open>
  \<open>cycle_world\<close>: two registered, activated objects; the deactivate hook of each deletes
  the other.
\<close>

definition cycle_world :: world where
  "cycle_world =
     empty_world\<lparr>
       objs := [(''a'', 0), (''b'', 1)],
       heap := (heap empty_world)
         (0 := (GritObject_new ''a'' ''x'')\<lparr>lua := Some 0\<rparr>,
          1 := (GritObject_new ''b'' ''y'')\<lparr>lua := Some 1\<rparr>),
       next_handle := 2,
       next_ref := 2,
       classes := (classes empty_world)
         (''x'' := \<lparr>refCount = 1,
                    class_fields = (\<lambda>_. None)(''deactivate'' :=
                      Some \<lparr>body = [CDel 1], status = Returned False\<rparr>)\<rparr>,
          ''y'' := \<lparr>refCount = 1,
                    class_fields = (\<lambda>_. None)(''deactivate'' :=
                      Some \<lparr>body = [CDel 0], status = Returned False\<rparr>)\<rparr>),
       streamer_objs := [0, 1],
       streamer_activated := [0, 1]\<rparr>"



section \<open>Properties\<close>

subsection \<open>Auxiliary facts\<close>

lemma rbind_simps [simp]:
  "rbind None f = None"
  "rbind (Some (Inl e)) f = Some (Inl e)"
  "rbind (Some (Inr x)) f = f x"
  "rbind (ok x) f = f x"
  "rbind (raise e) f = raise e"
  by (simp_all add: rbind_def ok_def raise_def)

lemma heap_upd_obj [simp]: "heap (upd_obj h f st) = (heap st)(h := f (heap st h))"
  by (simp add: upd_obj_def)

lemmas prim_defs = acquire_def release_def setNearObj_null_def setFarObj_null_def
  streamer_list_def streamer_unlist_def streamer_list_as_activated_def
  streamer_unlist_as_activated_def tryUnloadResources_def userValues_destroy_def upd_obj_def

lemmas call_defs = object_add_def object_del_def destroy_def deactivate_def pcall_def
  getField_def isActivated_def ok_def raise_def lift_def

lemmas example_defs = empty_world_def blank_object_def GritObject_new_def

lemmas hook_defs = exec_cmd_def setNeedsFrameCallbacks_def setNeedsStepCallbacks_def

lemmas frame_defs = object_do_frame_callbacks_def frameCallback_def

lemma rbind_eq_Inr:
  "rbind m f = Some (Inr y) \<longleftrightarrow> (\<exists>x. m = Some (Inr x) \<and> f x = Some (Inr y))"
  by (auto simp add: rbind_def split: option.splits sum.splits)

lemma next_handle_prims [simp]:
  "next_handle (upd_obj h f st) = next_handle st"
  "next_handle (acquire c st) = next_handle st"
  "next_handle (release c st) = next_handle st"
  "next_handle (setNearObj_null h st) = next_handle st"
  "next_handle (setFarObj_null h st) = next_handle st"
  "next_handle (streamer_list h st) = next_handle st"
  "next_handle (streamer_unlist h st) = next_handle st"
  "next_handle (streamer_list_as_activated h st) = next_handle st"
  "next_handle (streamer_unlist_as_activated h st) = next_handle st"
  "next_handle (tryUnloadResources h st) = next_handle st"
  "next_handle (userValues_destroy h st) = next_handle st"
  by (simp_all add: prim_defs split: option.splits)

lemma heap_prims [simp]:
  "heap (acquire c st) = heap st"
  "heap (release c st) = heap st"
  "heap (streamer_list h st) = heap st"
  "heap (streamer_unlist h st) = heap st"
  "heap (streamer_list_as_activated h st) = heap st"
  "heap (streamer_unlist_as_activated h st) = heap st"
  by (simp_all add: prim_defs)

subsection \<open>Operations on a destroyed record\<close>

text \<open>
  C1, as amended. On a record in the destroyed state (\<open>gritClass\<close> null), \<open>deactivate\<close>,
  \<open>init\<close>, \<open>notifyFade\<close>, \<open>getField\<close>, \<open>setNeedsFrameCallbacks\<close>,
  \<open>setNeedsStepCallbacks\<close>, \<open>frameCallback\<close> and \<open>stepCallback\<close> raise the
  ContractViolation error, whatever the Lua state. \<open>activate\<close> raises it too, unless the
  record still counts as activated, which \<open>activate\<close> tests first: then it returns at
  once. \<open>updateSphere\<close> has no such test and returns normally.
\<close>

theorem destroyed_raises:
  assumes "gritClass (heap st self) = None"
  shows "deactivate L st self = Some (Inl ContractViolation) \<and>
         init L st self = Some (Inl ContractViolation) \<and>
         notifyFade L st self fade = Some (Inl ContractViolation) \<and>
         getField st self f = Inl ContractViolation \<and>
         setNeedsFrameCallbacks st self v = Inl ContractViolation \<and>
         setNeedsStepCallbacks st self v = Inl ContractViolation \<and>
         frameCallback L st self elapsed = Some (Inl ContractViolation) \<and>
         stepCallback L st self elapsed = Some (Inl ContractViolation) \<and>
         (activate L st self = Some (Inl ContractViolation) \<or> isActivated (heap st self) \<and> activate L st self = Some (Inr st)) \<and>
         (\<exists>st'. updateSphere st self p rad = Inr st')"
  using assms
  by (simp add: deactivate_def init_def notifyFade_def getField_def setNeedsFrameCallbacks_def
      setNeedsStepCallbacks_def frameCallback_def stepCallback_def activate_def updateSphere_def
      raise_def ok_def Let_def)

text \<open>The theorem at a destroyed record that is not activated.\<close>

theorem destroyed_raises_witness:
  "gritClass (heap dead_world 0) = None \<and>
   deactivate (run_cmds 0) dead_world 0 = Some (Inl ContractViolation) \<and>
   init (run_cmds 0) dead_world 0 = Some (Inl ContractViolation) \<and>
   notifyFade (run_cmds 0) dead_world 0 1 = Some (Inl ContractViolation) \<and>
   getField dead_world 0 ''init'' = Inl ContractViolation \<and>
   setNeedsFrameCallbacks dead_world 0 True = Inl ContractViolation \<and>
   setNeedsStepCallbacks dead_world 0 True = Inl ContractViolation \<and>
   frameCallback (run_cmds 0) dead_world 0 1 = Some (Inl ContractViolation) \<and>
   stepCallback (run_cmds 0) dead_world 0 1 = Some (Inl ContractViolation) \<and>
   activate (run_cmds 0) dead_world 0 = Some (Inl ContractViolation) \<and>
   (\<exists>st'. updateSphere dead_world 0 (1, 2, 3) 4 = Inr st')"
  using destroyed_raises [of dead_world 0 "run_cmds 0" 1 "''init''" True 1 "(1, 2, 3)" 4]
  by (simp add: dead_world_def empty_world_def blank_object_def GritObject_new_def isActivated_def)

text \<open>
  C1 as stated fails for \<open>updateSphere\<close>: on a destroyed record with a spatial index, it
  stores the sphere and notifies the streamer.
\<close>

theorem updateSphere_destroyed_counterexample:
  "gritClass (heap dead_world 0) = None \<and>
   updateSphere dead_world 0 (1, 2, 3) 4 =
     Inr (streamer_update_sphere 3 (1, 2, 3) 4
            (upd_obj 0 (\<lambda>ob. ob\<lparr>pos := (1, 2, 3), obj_r := 4\<rparr>) dead_world))"
  by (simp add: dead_world_def empty_world_def blank_object_def GritObject_new_def
      updateSphere_def upd_obj_def Let_def)

subsection \<open>\<open>updateSphere\<close> on an unindexed record\<close>

text \<open>
  C10. When the record's \<open>index\<close> is the sentinel \<open>-1\<close>, each of the three
  \<open>updateSphere\<close> overloads returns with the world unchanged (position, radius and the
  streamer's log included) and without an error; nothing is assumed of the record's class
  reference, so this holds for a destroyed record too.
\<close>

theorem updateSphere_unindexed:
  "index (heap st self) = - 1 \<Longrightarrow>
     updateSphere st self p rad = Inr st \<and> updateSphere_pos st self p = Inr st \<and>
     updateSphere_r st self rad = Inr st"
  by (simp add: updateSphere_def updateSphere_pos_def updateSphere_r_def)

text \<open>The theorem at a destroyed, unindexed record.\<close>

theorem updateSphere_unindexed_witness:
  "index (heap empty_world 0) = - 1 \<and> gritClass (heap empty_world 0) = None \<and>
   updateSphere empty_world 0 (1, 2, 3) 4 = Inr empty_world \<and>
   updateSphere_pos empty_world 0 (1, 2, 3) = Inr empty_world \<and>
   updateSphere_r empty_world 0 4 = Inr empty_world"
  using updateSphere_unindexed [of empty_world 0 "(1, 2, 3)" 4]
  by (simp add: empty_world_def blank_object_def GritObject_new_def)

subsection \<open>Single-precision arithmetic\<close>

text \<open>
  The magnitudes grow with their codes; \<open>floor_code\<close> and \<open>round_code\<close> find what they
  are said to find; rounding is monotone and leaves a float as it is. Then the operations
  on finite floats, as the rounding of the exact result, and the facts about the floats
  around 1 that the fade calculator relies on.
\<close>

lemma scaled_normal:
  "\<not> m < 8388608 \<Longrightarrow> scaled m = (8388608 + m mod 8388608) * 2 ^ (m div 8388608 - 1)"
  by (simp add: scaled_def)

lemma scaled_Suc: "scaled m < scaled (Suc m)"
proof (cases "Suc m < 8388608")
  case True
  then show ?thesis by (simp add: scaled_def)
next
  case False
  show ?thesis
  proof (cases "m < 8388608")
    case True
    with False have "m = 8388607" by simp
    then show ?thesis by (simp add: scaled_def)
  next
    case ge: False
    define e where "e = m div 8388608 - 1"
    define f where "f = m mod 8388608"
    have e1: "m div 8388608 = Suc e" using ge by (simp add: e_def div_greater_zero_iff)
    have f1: "f < 8388608" by (simp add: f_def)
    have sm: "scaled m = (8388608 + f) * 2 ^ e"
      using ge by (simp add: scaled_normal e_def f_def)
    show ?thesis
    proof (cases "Suc f = 8388608")
      case True
      then have "Suc m div 8388608 = Suc (Suc e)" and "Suc m mod 8388608 = 0"
        using e1 by (simp_all add: div_Suc mod_Suc f_def)
      then have "scaled (Suc m) = 8388608 * (2 * 2 ^ e)"
        using False by (simp add: scaled_normal)
      moreover have "(8388608 + f) * 2 ^ e < 16777216 * (2::nat) ^ e" using f1 by simp
      ultimately show ?thesis by (simp add: sm)
    next
      case nf: False
      then have "Suc m div 8388608 = Suc e" and "Suc m mod 8388608 = Suc f"
        using e1 by (simp_all add: div_Suc mod_Suc f_def)
      then have "scaled (Suc m) = (8388608 + Suc f) * 2 ^ e"
        using False by (simp add: scaled_normal)
      then show ?thesis by (simp add: sm)
    qed
  qed
qed

lemma scaled_strict_mono: "m < n \<Longrightarrow> scaled m < scaled n"
  by (rule lift_Suc_mono_less [of scaled]) (rule scaled_Suc)

lemma scaled_mono: "m \<le> n \<Longrightarrow> scaled m \<le> scaled n"
  using scaled_strict_mono [of m n] by (cases "m = n") simp_all

lemma magval_strict_mono: "m < n \<Longrightarrow> magval m < magval n"
  by (simp add: magval_def divide_strict_right_mono scaled_strict_mono)

lemma magval_mono: "m \<le> n \<Longrightarrow> magval m \<le> magval n"
  by (simp add: magval_def divide_right_mono scaled_mono)

lemma magval_less_iff [simp]: "magval m < magval n \<longleftrightarrow> m < n"
  using magval_strict_mono [of m n] magval_mono [of n m] by (auto simp add: not_less [symmetric])

lemma magval_le_iff [simp]: "magval m \<le> magval n \<longleftrightarrow> m \<le> n"
  using magval_less_iff [of n m] by (simp only: not_less [symmetric])

lemma magval_eq_iff [simp]: "magval m = magval n \<longleftrightarrow> m = n"
  by (metis magval_le_iff order_antisym order_refl)

lemma magval_nonneg [simp]: "0 \<le> magval m"
  by (simp add: magval_def)

lemma magval_0 [simp]: "magval 0 = 0"
  by (simp add: magval_def scaled_def)


lemma search_spec:
  assumes dc: "\<And>a b. a \<le> b \<Longrightarrow> P b \<Longrightarrow> P a"
  shows "P m \<Longrightarrow> \<not> P (m + 2 ^ i) \<Longrightarrow> P (search P i m) \<and> \<not> P (Suc (search P i m))"
proof (induction i arbitrary: m)
  case 0
  then show ?case by simp
next
  case (Suc i)
  show ?case
  proof (cases "P (m + 2 ^ i)")
    case True
    have e: "m + 2 ^ Suc i = m + 2 ^ i + 2 ^ i" by simp
    note top = Suc.prems(2) [unfolded e]
    from Suc.IH [OF True top] True show ?thesis by simp
  next
    case False
    from Suc.IH [OF Suc.prems(1) False] False show ?thesis by simp
  qed
qed


lemma floor_code_spec:
  assumes "0 \<le> X"
  shows "floor_code (\<lambda>t. t \<le> X) \<le> inf_code \<and> magval (floor_code (\<lambda>t. t \<le> X)) \<le> X \<and>
         (floor_code (\<lambda>t. t \<le> X) < inf_code \<longrightarrow> X < magval (Suc (floor_code (\<lambda>t. t \<le> X))))"
proof -
  let ?P = "\<lambda>m. m \<le> inf_code \<and> magval m \<le> X"
  have dc: "?P a" if "a \<le> b" "?P b" for a b
  proof -
    from that have "a \<le> inf_code" by simp
    moreover from that have "magval a \<le> magval b" by simp
    ultimately show ?thesis using that by (meson order_trans)
  qed
  have p0: "?P 0" using assms by simp
  have "(2::nat) ^ 31 = 2147483648" by simp
  then have top: "\<not> ?P (0 + 2 ^ 31)" by (simp add: inf_code_def)
  have "?P (search ?P 31 0) \<and> \<not> ?P (Suc (search ?P 31 0))"
    using dc p0 top by (rule search_spec [of ?P 0 31])
  then show ?thesis unfolding floor_code_def by (auto simp add: not_le)
qed

lemma floor_code_eqI:
  assumes "0 \<le> X" and "m \<le> inf_code" and "magval m \<le> X"
    and "m < inf_code \<Longrightarrow> X < magval (Suc m)"
  shows "floor_code (\<lambda>t. t \<le> X) = m"
proof -
  let ?r = "floor_code (\<lambda>t. t \<le> X)"
  from floor_code_spec [OF assms(1)] have r: "?r \<le> inf_code" "magval ?r \<le> X"
    "?r < inf_code \<Longrightarrow> X < magval (Suc ?r)" by simp_all
  have "\<not> ?r < m"
  proof
    assume lt: "?r < m"
    with assms(2) have "?r < inf_code" by simp
    from r(3) [OF this] have "X < magval (Suc ?r)" .
    also from lt have "magval (Suc ?r) \<le> magval m" by simp
    finally show False using assms(3) by simp
  qed
  moreover have "\<not> m < ?r"
  proof
    assume lt: "m < ?r"
    with r(1) have "m < inf_code" by simp
    from assms(4) [OF this] have "X < magval (Suc m)" .
    also from lt have "magval (Suc m) \<le> magval ?r" by simp
    finally show False using r(2) by simp
  qed
  ultimately show ?thesis by simp
qed

lemma nearest_unfold:
  "nearest X =
     (let m = floor_code (\<lambda>t. t \<le> X) in
      if m = inf_code then m
      else if (magval m + magval (Suc m)) / 2 < X then Suc m
      else if (magval m + magval (Suc m)) / 2 = X \<and> odd m then Suc m else m)"
  by (auto simp add: nearest_def round_code_def Let_def)

lemma round_code_cut:
  assumes "\<And>t. 0 \<le> t \<Longrightarrow> le t = (t \<le> X)" and "\<And>t. 0 \<le> t \<Longrightarrow> lt t = (t < X)"
  shows "round_code le lt = nearest X"
proof -
  have "(\<lambda>m. m \<le> inf_code \<and> le (magval m)) = (\<lambda>m. m \<le> inf_code \<and> magval m \<le> X)"
    by (intro ext) (simp add: assms(1))
  then have f: "floor_code le = floor_code (\<lambda>t. t \<le> X)" by (simp add: floor_code_def)
  have mid: "0 \<le> (magval m + magval (Suc m)) / 2" for m by simp
  show ?thesis
    by (simp add: nearest_def round_code_def f Let_def assms(1) [OF mid] assms(2) [OF mid])
qed

lemma nearest_le_inf: "0 \<le> X \<Longrightarrow> nearest X \<le> inf_code"
  using floor_code_spec [of X] by (auto simp add: nearest_unfold Let_def)

lemma nearest_magval: 
  assumes "m \<le> inf_code"
  shows "nearest (magval m) = m"
proof -
  have f: "floor_code (\<lambda>t. t \<le> magval m) = m"
    by (rule floor_code_eqI) (simp_all add: assms)
  have "magval m < (magval m + magval (Suc m)) / 2"
    using magval_strict_mono [of m "Suc m"] by simp
  then show ?thesis by (simp add: nearest_unfold f Let_def)
qed

lemma nearest_mono:
  assumes "0 \<le> X" and "X \<le> Y"
  shows "nearest X \<le> nearest Y"
proof -
  let ?a = "floor_code (\<lambda>t. t \<le> X)" and ?b = "floor_code (\<lambda>t. t \<le> Y)"
  from assms have y0: "0 \<le> Y" by simp
  from floor_code_spec [OF assms(1)] have a: "?a \<le> inf_code" "magval ?a \<le> X"
    "?a < inf_code \<Longrightarrow> X < magval (Suc ?a)" by simp_all
  from floor_code_spec [OF y0] have b: "?b \<le> inf_code" "magval ?b \<le> Y"
    "?b < inf_code \<Longrightarrow> Y < magval (Suc ?b)" by simp_all
  have ab: "?a \<le> ?b"
  proof (rule ccontr)
    assume "\<not> ?a \<le> ?b"
    then have lt: "?b < ?a" by simp
    with a(1) have "?b < inf_code" by simp
    from b(3) [OF this] have "Y < magval (Suc ?b)" .
    also from lt have "magval (Suc ?b) \<le> magval ?a" by simp
    finally show False using a(2) assms(2) by simp
  qed
  have nx: "nearest X \<le> Suc ?a" "?a = inf_code \<Longrightarrow> nearest X = ?a"
    by (simp_all add: nearest_unfold Let_def)
  have ny: "?b \<le> nearest Y" by (simp add: nearest_unfold Let_def)
  show ?thesis
  proof (cases "?a = ?b")
    case False
    with ab have "Suc ?a \<le> ?b" by simp
    with nx(1) ny show ?thesis by simp
  next
    case True
    define m where "m = ?b"
    have am: "floor_code (\<lambda>t. t \<le> X) = m" and bm: "floor_code (\<lambda>t. t \<le> Y) = m"
      using True by (simp_all add: m_def)
    define mid where "mid = (magval m + magval (Suc m)) / 2"
    have nX: "nearest X = (if m = inf_code then m else if mid < X then Suc m
        else if mid = X \<and> odd m then Suc m else m)"
      by (simp only: nearest_unfold am Let_def mid_def)
    have nY: "nearest Y = (if m = inf_code then m else if mid < Y then Suc m
        else if mid = Y \<and> odd m then Suc m else m)"
      by (simp only: nearest_unfold bm Let_def mid_def)
    show ?thesis
      unfolding nX nY using assms(2) by (simp split: if_splits)
  qed
qed


lemma magval_not_neg [simp]: "\<not> magval m < 0"
  by (simp add: not_less)

lemma mag_mk_float [simp]: "m < 2147483648 \<Longrightarrow> mag (mk_float s m) = m"
  by (simp add: mag_def mk_float_def unat_of_nat)

lemma fsign_mk_float [simp]: "m < 2147483648 \<Longrightarrow> fsign (mk_float s m) = s"
  by (simp add: fsign_def mk_float_def unat_of_nat)

lemma mag_less: "mag w < 2147483648"
  by (simp add: mag_def)

lemma mk_float_fsign_mag: "mk_float (fsign w) (mag w) = w"
proof -
  have "unat w < 4294967296" using unsigned_less [of w, where ?'a = nat] by simp
  then have "(if fsign w then 2147483648 + mag w else mag w) = unat w"
    by (auto simp add: fsign_def mag_def le_mod_geq)
  then show ?thesis by (simp add: mk_float_def)
qed

lemma valof_mk_float: "m < 2147483648 \<Longrightarrow> valof (mk_float s m) = (if s then - magval m else magval m)"
  by (simp add: valof_def)

lemma abs_valof: "\<bar>valof w\<bar> = magval (mag w)"
  by (simp add: valof_def)

lemma inf_code_less: "inf_code < 2147483648"
  by (simp add: inf_code_def)

lemma is_nan_mk_float [simp]: "m \<le> inf_code \<Longrightarrow> \<not> is_nan (mk_float s m)"
  using inf_code_less by (simp add: is_nan_def)

lemma fround_code: "mag (fround s x) = nearest \<bar>x\<bar>"
  and fround_sign: "fsign (fround s x) = (x < 0 \<or> x = 0 \<and> s)"
  and fround_not_nan [simp]: "\<not> is_nan (fround s x)"
proof -
  have le: "nearest \<bar>x\<bar> \<le> inf_code" by (rule nearest_le_inf) simp
  then have lt: "nearest \<bar>x\<bar> < 2147483648" using inf_code_less by simp
  show "mag (fround s x) = nearest \<bar>x\<bar>" "fsign (fround s x) = (x < 0 \<or> x = 0 \<and> s)"
    using lt by (simp_all add: fround_def nearest_def [symmetric])
  show "\<not> is_nan (fround s x)" using le lt by (simp add: fround_def nearest_def [symmetric])
qed

lemma nearest_0 [simp]: "nearest 0 = 0"
  using nearest_magval [of 0] by (simp add: inf_code_def)

lemma valof_fround: "valof (fround s x) = (if x < 0 then - magval (nearest \<bar>x\<bar>) else magval (nearest \<bar>x\<bar>))"
  by (auto simp add: valof_def fround_code fround_sign)

lemma fround_mono: "x \<le> y \<Longrightarrow> valof (fround s x) \<le> valof (fround s' y)"
proof -
  assume xy: "x \<le> y"
  show ?thesis
  proof (cases "x < 0")
    case True
    show ?thesis
    proof (cases "y < 0")
      case y: True
      with xy have "\<bar>y\<bar> \<le> \<bar>x\<bar>" by simp
      then have "nearest \<bar>y\<bar> \<le> nearest \<bar>x\<bar>" by (intro nearest_mono) simp_all
      then show ?thesis using True y by (simp add: valof_fround)
    next
      case False
      have "- magval (nearest \<bar>x\<bar>) \<le> 0" by simp
      also have "0 \<le> magval (nearest \<bar>y\<bar>)" by simp
      finally show ?thesis using True False by (simp add: valof_fround)
    qed
  next
    case False
    with xy have "\<bar>x\<bar> \<le> \<bar>y\<bar>" "\<not> y < 0" by simp_all
    moreover from this have "nearest \<bar>x\<bar> \<le> nearest \<bar>y\<bar>" by (intro nearest_mono) simp_all
    ultimately show ?thesis using False by (simp add: valof_fround)
  qed
qed

lemma fround_valof: "\<not> is_nan w \<Longrightarrow> valof (fround s (valof w)) = valof w"
proof -
  assume "\<not> is_nan w"
  then have m: "mag w \<le> inf_code" by (simp add: is_nan_def)
  have n: "nearest \<bar>valof w\<bar> = mag w" by (simp add: abs_valof nearest_magval m)
  show ?thesis
  proof (cases "valof w < 0")
    case True
    then have "valof w = - magval (mag w)" by (simp add: valof_def split: if_splits)
    with True n show ?thesis by (simp only: valof_fround if_True)
  next
    case False
    have "magval (mag w) = 0" if "fsign w"
    proof (rule order_antisym)
      from False that show "magval (mag w) \<le> 0" by (simp add: valof_def not_less)
    qed simp
    then have "valof w = magval (mag w)" by (simp add: valof_def)
    with False n show ?thesis by (simp only: valof_fround if_False)
  qed
qed

lemma fround_le: "\<not> is_nan w \<Longrightarrow> x \<le> valof w \<Longrightarrow> valof (fround s x) \<le> valof w"
  using fround_mono [of x "valof w" s s] by (simp add: fround_valof)

lemma fround_ge: "\<not> is_nan w \<Longrightarrow> valof w \<le> x \<Longrightarrow> valof w \<le> valof (fround s x)"
  using fround_mono [of "valof w" x s s] by (simp add: fround_valof)


lemma search_numeral:
  "search P (numeral k) m =
     (if P (m + 2 ^ pred_numeral k) then search P (pred_numeral k) (m + 2 ^ pred_numeral k)
      else search P (pred_numeral k) m)"
  by (simp add: numeral_eq_Suc)

lemmas float_eval = fsub_def fadd_def fdiv_def sqrtf_def is_nan_def is_inf_def is_zero_def
  fsign_def mag_def valof_def magval_def scaled_def inf_code_def fround_def round_code_def
  floor_code_def mk_float_def f_one_def f_two_def f_zero_def f_nan_def Let_def search_numeral
  flt_def fle_def fgt_def fneg_def

lemma valof_fround_rnd: "valof (fround s x) = rnd x"
  by (simp add: valof_fround rnd_def)

lemma rnd_mono: "x \<le> y \<Longrightarrow> rnd x \<le> rnd y"
  using fround_mono [of x y False False] by (simp add: valof_fround_rnd)

lemma rnd_valof: "\<not> is_nan w \<Longrightarrow> rnd (valof w) = valof w"
  using fround_valof [of w False] by (simp add: valof_fround_rnd)

lemma rnd_magval: "m \<le> inf_code \<Longrightarrow> rnd (magval m) = magval m"
  by (simp add: rnd_def nearest_magval)

lemma magval_pos_iff [simp]: "0 < magval m \<longleftrightarrow> 0 < m"
  using magval_less_iff [of 0 m] by (simp del: magval_less_iff)

lemma rnd_neg_magval: "m \<le> inf_code \<Longrightarrow> rnd (- magval m) = - magval m"
  by (cases "m = 0") (simp_all add: rnd_def nearest_magval)

lemma rnd_ge: "m \<le> inf_code \<Longrightarrow> magval m \<le> x \<Longrightarrow> magval m \<le> rnd x"
  using rnd_mono [of "magval m" x] by (simp add: rnd_magval)

lemma rnd_le: "m \<le> inf_code \<Longrightarrow> x \<le> magval m \<Longrightarrow> rnd x \<le> magval m"
  using rnd_mono [of x "magval m"] by (simp add: rnd_magval)

lemma rnd_ge_neg: "m \<le> inf_code \<Longrightarrow> - magval m \<le> x \<Longrightarrow> - magval m \<le> rnd x"
  using rnd_mono [of "- magval m" x] by (simp add: rnd_neg_magval)

lemma magval_one: "magval 1065353216 = 1"
  and magval_two: "magval 1073741824 = 2"
  and magval_half: "magval 1056964608 = 1 / 2"
  and magval_below_one: "magval 1065353215 = 1 - 1 / 2 ^ 24"
  and magval_inf: "magval inf_code = 2 ^ 128"
  and magval_min: "magval (Suc 0) = 1 / 2 ^ 149"
  and magval_ulp_one: "magval 864026624 = 1 / 2 ^ 24"
  by (simp_all add: magval_def scaled_def inf_code_def)

lemma valof_consts [simp]: "valof f_zero = 0" "valof f_one = 1" "valof f_two = 2"
  and not_nan_consts [simp]: "\<not> is_nan f_zero" "\<not> is_nan f_one" "\<not> is_nan f_two"
  and finite_consts [simp]: "finite_f f_zero" "finite_f f_one" "finite_f f_two"
  and sign_consts [simp]: "\<not> fsign f_zero" "\<not> fsign f_one" "\<not> fsign f_two"
  and mag_consts: "mag f_zero = 0" "mag f_one = 1065353216" "mag f_two = 1073741824"
  by (simp_all add: valof_def f_zero_def f_one_def f_two_def fsign_def mag_def magval_def
      scaled_def is_nan_def inf_code_def finite_f_def)

lemma rnd_consts [simp]: "rnd 0 = 0" "rnd 1 = 1" "rnd 2 = 2" "rnd (1 / 2) = 1 / 2"
  using rnd_magval [of 0] rnd_magval [of 1065353216] rnd_magval [of 1073741824]
    rnd_magval [of 1056964608]
  by (simp_all add: magval_one magval_two magval_half inf_code_def)

lemma finite_not_nan: "finite_f w \<Longrightarrow> \<not> is_nan w"
  by (simp add: finite_f_def is_nan_def)

lemma finite_not_inf: "finite_f w \<Longrightarrow> \<not> is_inf w"
  by (simp add: finite_f_def is_inf_def)

lemma finite_iff: "finite_f w \<longleftrightarrow> \<not> is_nan w \<and> \<bar>valof w\<bar> < 2 ^ 128"
  unfolding abs_valof magval_inf [symmetric] by (auto simp add: finite_f_def is_nan_def)

lemma finiteI: "\<not> is_nan w \<Longrightarrow> - (2 ^ 128) < valof w \<Longrightarrow> valof w < 2 ^ 128 \<Longrightarrow> finite_f w"
  by (simp add: finite_iff abs_less_iff)

lemma is_zero_iff: "is_zero w \<longleftrightarrow> valof w = 0"
proof -
  have "magval (mag w) = 0 \<longleftrightarrow> mag w = 0" using magval_eq_iff [of "mag w" 0] by simp
  then show ?thesis by (simp add: is_zero_def valof_def)
qed

lemma fsub_finite:
  "finite_f a \<Longrightarrow> finite_f b \<Longrightarrow> fsub a b = fround (fsign a \<and> \<not> fsign b) (valof a - valof b)"
  by (simp add: fsub_def finite_not_nan finite_not_inf)

lemma fadd_finite:
  "finite_f a \<Longrightarrow> finite_f b \<Longrightarrow> fadd a b = fround (fsign a \<and> fsign b) (valof a + valof b)"
  by (simp add: fadd_def finite_not_nan finite_not_inf)

lemma fdiv_finite:
  "finite_f a \<Longrightarrow> finite_f b \<Longrightarrow> valof b \<noteq> 0 \<Longrightarrow>
     fdiv a b = fround (fsign a \<noteq> fsign b) (valof a / valof b)"
  by (simp add: fdiv_def finite_not_nan finite_not_inf is_zero_iff)

lemma valof_fsub: "finite_f a \<Longrightarrow> finite_f b \<Longrightarrow> valof (fsub a b) = rnd (valof a - valof b)"
  and valof_fadd: "finite_f a \<Longrightarrow> finite_f b \<Longrightarrow> valof (fadd a b) = rnd (valof a + valof b)"
  and valof_fdiv: "finite_f a \<Longrightarrow> finite_f b \<Longrightarrow> valof b \<noteq> 0 \<Longrightarrow> valof (fdiv a b) = rnd (valof a / valof b)"
  by (simp_all add: fsub_finite fadd_finite fdiv_finite valof_fround_rnd)

lemma not_nan_fsub [simp]: "finite_f a \<Longrightarrow> finite_f b \<Longrightarrow> \<not> is_nan (fsub a b)"
  and not_nan_fadd [simp]: "finite_f a \<Longrightarrow> finite_f b \<Longrightarrow> \<not> is_nan (fadd a b)"
  and not_nan_fdiv [simp]: "finite_f a \<Longrightarrow> finite_f b \<Longrightarrow> valof b \<noteq> 0 \<Longrightarrow> \<not> is_nan (fdiv a b)"
  by (simp_all add: fsub_finite fadd_finite fdiv_finite)

lemma below_one:
  assumes "\<not> is_nan w" and "valof w < 1"
  shows "valof w \<le> 1 - 1 / 2 ^ 24"
proof (cases "fsign w")
  case True
  have "- magval (mag w) \<le> 0" by simp
  also have "(0::real) \<le> 1 - 1 / 2 ^ 24" by simp
  finally show ?thesis using True by (simp add: valof_def)
next
  case False
  with assms(2) have "magval (mag w) < magval 1065353216" by (simp add: valof_def magval_one)
  then have "mag w \<le> 1065353215" by simp
  then have "magval (mag w) \<le> magval 1065353215" by (simp only: magval_le_iff)
  then show ?thesis using False by (simp add: valof_def magval_below_one)
qed

lemma valof_grid: "\<exists>k::int. valof w = of_int k / 2 ^ 149"
proof (cases "fsign w")
  case True
  have "valof w = of_int (- int (scaled (mag w))) / 2 ^ 149"
    using True by (simp add: valof_def magval_def)
  then show ?thesis by blast
next
  case False
  have "valof w = of_int (int (scaled (mag w))) / 2 ^ 149"
    using False by (simp add: valof_def magval_def)
  then show ?thesis by blast
qed

lemma diff_grid:
  assumes "valof b < valof a"
  shows "1 / 2 ^ 149 \<le> valof a - valof b"
proof -
  from valof_grid [of a] obtain k where k: "valof a = of_int k / 2 ^ 149" by blast
  from valof_grid [of b] obtain l where l: "valof b = of_int l / 2 ^ 149" by blast
  from assms have "(of_int l :: real) < of_int k" by (simp add: k l divide_less_cancel)
  then have "l < k" by simp
  then have "1 \<le> k - l" by simp
  then have "(1::real) \<le> of_int (k - l)" by (simp only: of_int_1_le_iff)
  then have "(1::real) / 2 ^ 149 \<le> of_int (k - l) / 2 ^ 149" by (simp add: divide_le_cancel)
  then show ?thesis by (simp add: k l diff_divide_distrib)
qed

lemma rnd_diff_pos:
  assumes "valof b < valof a"
  shows "0 < rnd (valof a - valof b)"
proof -
  have "magval 1 \<le> rnd (valof a - valof b)"
  proof (rule rnd_ge)
    show "1 \<le> inf_code" by (simp add: inf_code_def)
    show "magval 1 \<le> valof a - valof b"
      using diff_grid [OF assms] by (simp only: magval_min One_nat_def)
  qed
  then show ?thesis by (simp add: magval_min)
qed

lemma magval_double:
  assumes "8388608 \<le> m"
  shows "magval (m + 8388608) = 2 * magval m"
proof -
  define e where "e = m div 8388608 - 1"
  have e: "m div 8388608 = Suc e" using assms by (simp add: e_def div_greater_zero_iff)
  have "scaled m = (8388608 + m mod 8388608) * 2 ^ e"
    using assms by (simp add: scaled_def e)
  moreover have "scaled (m + 8388608) = (8388608 + m mod 8388608) * 2 ^ Suc e"
    using assms by (simp add: scaled_def e)
  ultimately show ?thesis by (simp add: magval_def)
qed

lemma magval_binade126:
  assumes "1056964608 \<le> m" and "m < 1065353216"
  shows "magval m = (real m - 1048576000) / 2 ^ 24"
proof -
  have d: "m div 8388608 = 126"
    by (rule div_nat_eqI) (use assms in simp_all)
  have "m mod 8388608 = m - 126 * 8388608"
    using div_mult_mod_eq [of m 8388608] by (simp only: d)
  then have r: "m mod 8388608 = m - 1056964608" by simp
  have "scaled m = (8388608 + (m - 1056964608)) * 2 ^ 125"
    using assms by (simp add: scaled_def d r)
  then have "real (scaled m) = (real m - 1048576000) * 2 ^ 125"
    using assms by (simp add: of_nat_diff)
  then show ?thesis by (simp add: magval_def)
qed


lemma valof_neg_sign: "valof w < 0 \<Longrightarrow> fsign w"
  and valof_pos_sign: "0 < valof w \<Longrightarrow> \<not> fsign w"
  using magval_nonneg [of "mag w"]
  by (auto simp add: valof_def simp del: magval_nonneg magval_not_neg split: if_splits)

lemma finite_bounds: "finite_f w \<Longrightarrow> - (2 ^ 128) < valof w \<and> valof w < 2 ^ 128"
  by (simp add: finite_iff abs_less_iff)

lemma mid_finite:
  assumes fin: "finite_f w" and lt: "valof w < 1"
  shows "finite_f (fadd w f_one)" and "finite_f (fdiv (fadd w f_one) f_two)"
    and "valof (fdiv (fadd w f_one) f_two) = rnd (rnd (valof w + 1) / 2)"
    and "valof (fdiv (fadd w f_one) f_two) \<le> 1"
proof -
  let ?x = "valof w"
  let ?z = "rnd (?x + 1)"
  have nn: "\<not> is_nan w" using fin by (rule finite_not_nan)
  have vz: "valof (fadd w f_one) = ?z" using fin by (simp add: valof_fadd)
  have z_up: "?z \<le> 2" using rnd_mono [of "?x + 1" 2] lt by simp
  have z_lo: "?x \<le> ?z" using rnd_mono [of ?x "?x + 1"] by (simp add: rnd_valof nn)
  show fz: "finite_f (fadd w f_one)"
    using fin z_up z_lo finite_bounds [OF fin] by (intro finiteI) (simp_all add: vz)
  have vm: "valof (fdiv (fadd w f_one) f_two) = rnd (?z / 2)"
    using fz by (simp add: valof_fdiv vz)
  have m_up: "rnd (?z / 2) \<le> 1" using rnd_mono [of "?z / 2" 1] z_up by simp
  have m_lo: "- (2 ^ 128) < rnd (?z / 2)"
  proof (cases "0 \<le> ?z")
    case True
    then have "rnd 0 \<le> rnd (?z / 2)" by (intro rnd_mono) simp
    then show ?thesis by simp
  next
    case False
    then have "?z \<le> ?z / 2" by simp
    then have "rnd ?z \<le> rnd (?z / 2)" by (rule rnd_mono)
    moreover have "rnd ?z = ?z" using rnd_valof [of "fadd w f_one"] fz
      by (simp add: vz finite_not_nan)
    ultimately show ?thesis using z_lo finite_bounds [OF fin] by simp
  qed
  show "finite_f (fdiv (fadd w f_one) f_two)"
    using fz m_up m_lo by (intro finiteI) (simp_all add: vm)
  show "valof (fdiv (fadd w f_one) f_two) = rnd (rnd (valof w + 1) / 2)" by (rule vm)
  show "valof (fdiv (fadd w f_one) f_two) \<le> 1" using m_up by (simp add: vm)
qed

lemma mid_tie: "fdiv (fadd 1065353215 f_one) f_two = f_one"
  by (simp add: float_eval)

lemma mid_above:
  assumes fin: "finite_f w" and lt: "valof w < 1"
  shows "valof w < rnd (rnd (valof w + 1) / 2)"
proof -
  let ?x = "valof w"
  let ?z = "rnd (?x + 1)"
  let ?m = "mag w"
  have nn: "\<not> is_nan w" using fin by (rule finite_not_nan)
  consider (d) "?x < - 1" | (c) "- 1 \<le> ?x" "?x < 0" | (b) "0 \<le> ?x" "?x < 1 / 2"
    | (a) "1 / 2 \<le> ?x" by linarith
  then show ?thesis
  proof cases
    case d
    then have s: "fsign w" by (intro valof_neg_sign) simp
    then have x: "?x = - magval ?m" by (simp add: valof_def)
    with d have "magval 1065353216 < magval ?m" by (simp add: magval_one)
    then have big: "1065353216 < ?m" by simp
    define k where "k = ?m - 8388608"
    have k: "?m = k + 8388608" "8388608 \<le> k" using big by (simp_all add: k_def)
    have half: "magval ?m = 2 * magval k" using magval_double [OF k(2)] by (simp add: k(1))
    have kinf: "k \<le> inf_code" using fin by (simp add: finite_f_def k_def)
    have "?x \<le> ?z" using rnd_mono [of ?x "?x + 1"] by (simp add: rnd_valof nn)
    then have "- magval k \<le> ?z / 2" by (simp add: x half)
    then have "- magval k \<le> rnd (?z / 2)" using kinf by (rule rnd_ge_neg [rotated])
    moreover have "?x < - magval k" using big by (simp add: x half k_def)
    ultimately show ?thesis by simp
  next
    case c
    then have "rnd 0 \<le> ?z" by (intro rnd_mono) simp
    then have "rnd 0 \<le> rnd (?z / 2)" by (intro rnd_mono) simp
    with c show ?thesis by simp
  next
    case b
    then have "rnd 1 \<le> ?z" by (intro rnd_mono) simp
    then have "rnd (1 / 2) \<le> rnd (?z / 2)" by (intro rnd_mono) simp
    with b show ?thesis by simp
  next
    case a
    then have s: "\<not> fsign w" by (intro valof_pos_sign) simp
    then have x: "?x = magval ?m" by (simp add: valof_def)
    from a lt have "magval 1056964608 \<le> magval ?m" "magval ?m < magval 1065353216"
      by (simp_all add: x [symmetric] magval_half magval_one)
    then have range: "1056964608 \<le> ?m" "?m < 1065353216" by simp_all
    show ?thesis
    proof (cases "?m = 1065353215")
      case True
      with s have "mk_float (fsign w) (mag w) = mk_float False 1065353215" by simp
      then have w: "w = 1065353215" by (simp add: mk_float_fsign_mag) (simp add: mk_float_def)
      have "valof (fdiv (fadd w f_one) f_two) = 1" by (simp add: w mid_tie)
      then have "rnd (?z / 2) = 1" using mid_finite(3) [OF fin lt] by simp
      with lt show ?thesis by simp
    next
      case False
      with range have r1: "1056964608 \<le> Suc ?m" "Suc ?m < 1065353216" by simp_all
      have xm: "?x = (real ?m - 1048576000) / 2 ^ 24"
        using magval_binade126 [OF range] by (simp add: x)
      have y: "magval (Suc ?m) = (real ?m + 1 - 1048576000) / 2 ^ 24"
        using magval_binade126 [OF r1] by simp
      have y2: "magval (Suc ?m + 8388608) = 2 * magval (Suc ?m)"
        by (rule magval_double) (use range in simp)
      have "real ?m \<le> 1065353214" using range False by simp
      then have "2 * magval (Suc ?m) \<le> ?x + 1" by (simp add: xm y field_simps)
      then have "magval (Suc ?m + 8388608) \<le> ?z"
        unfolding y2 [symmetric] by (intro rnd_ge) (use range in \<open>simp_all add: inf_code_def\<close>)
      then have "2 * magval (Suc ?m) \<le> ?z" by (simp only: y2)
      then have "magval (Suc ?m) \<le> ?z / 2" by simp
      then have "magval (Suc ?m) \<le> rnd (?z / 2)"
        by (intro rnd_ge) (use range in \<open>simp_all add: inf_code_def\<close>)
      moreover have "?x < magval (Suc ?m)" by (simp add: x)
      ultimately show ?thesis by simp
    qed
  qed
qed


lemma sqrt_cut:
  assumes "0 \<le> v"
  shows "round_code (\<lambda>t. t * t \<le> v) (\<lambda>t. t * t < v) = nearest (sqrt v)"
proof (rule round_code_cut)
  fix t :: real
  assume t: "0 \<le> t"
  then have st: "sqrt (t * t) = t" by simp
  show "(t * t \<le> v) = (t \<le> sqrt v)"
    using real_sqrt_le_iff [of "t * t" v] by (simp only: st)
  show "(t * t < v) = (t < sqrt v)"
    using real_sqrt_less_iff [of "t * t" v] by (simp only: st)
qed

lemma sqrtf_rounds:
  assumes "finite_f a" and "0 < valof a"
  shows "sqrtf a = fround False (sqrt (valof a))"
proof -
  from assms(2) have s: "\<not> fsign a" by (rule valof_pos_sign)
  from assms(2) have z: "\<not> is_zero a" by (simp add: is_zero_iff)
  have c: "round_code (\<lambda>t. t * t \<le> valof a) (\<lambda>t. t * t < valof a) = nearest (sqrt (valof a))"
    by (rule sqrt_cut) (use assms(2) in simp)
  have "sqrtf a = mk_float False (round_code (\<lambda>t. t * t \<le> valof a) (\<lambda>t. t * t < valof a))"
    using assms s z by (simp add: sqrtf_def finite_not_nan finite_not_inf)
  also have "\<dots> = mk_float False (nearest (sqrt (valof a)))" by (simp only: c)
  also have "\<dots> = fround False (sqrt (valof a))"
  proof -
    have "\<bar>sqrt (valof a)\<bar> = sqrt (valof a)" "\<not> sqrt (valof a) < 0" "sqrt (valof a) \<noteq> 0"
      using assms(2) by simp_all
    then show ?thesis by (simp only: fround_def nearest_def simp_thms)
  qed
  finally show ?thesis .
qed

lemma sqrtf_nonneg:
  assumes "fle f_zero a"
  shows "\<not> is_nan (sqrtf a)" and "0 \<le> valof (sqrtf a)"
proof -
  from assms have nn: "\<not> is_nan a" and v: "0 \<le> valof a" by (simp_all add: fle_def)
  have "\<not> is_nan (sqrtf a) \<and> 0 \<le> valof (sqrtf a)"
  proof (cases "is_zero a \<or> is_inf a")
    case True
    then have "sqrtf a = a \<or> sqrtf a = f_nan" by (auto simp add: sqrtf_def)
    moreover have "\<not> fsign a" if "\<not> is_zero a"
      using that v by (intro valof_pos_sign) (simp add: is_zero_iff)
    ultimately show ?thesis using True nn v by (auto simp add: sqrtf_def)
  next
    case False
    then have fin: "finite_f a" using nn by (auto simp add: finite_f_def is_nan_def is_inf_def)
    from False v have pos: "0 < valof a" by (simp add: is_zero_iff)
    have "rnd 0 \<le> rnd (sqrt (valof a))" by (intro rnd_mono) (use pos in simp)
    then show ?thesis by (simp add: sqrtf_rounds [OF fin pos] valof_fround_rnd)
  qed
  then show "\<not> is_nan (sqrtf a)" and "0 \<le> valof (sqrtf a)" by simp_all
qed

lemma sqrtf_one: "sqrtf f_one = f_one"
  by (simp add: float_eval)

subsection \<open>The fade calculator\<close>

lemma fround_zero: "fround s 0 = mk_float s 0"
  by (simp add: fround_def nearest_def [symmetric])

lemma fround_one: "fround s 1 = f_one"
proof -
  have "nearest 1 = 1065353216" using nearest_magval [of 1065353216]
    by (simp add: magval_one inf_code_def)
  then show ?thesis by (simp add: fround_def nearest_def [symmetric] mk_float_def f_one_def)
qed

lemma valof_zero_code: "valof (mk_float s 0) = 0" and finite_zero_code: "finite_f (mk_float s 0)"
  by (simp_all add: valof_mk_float finite_f_def inf_code_def)

lemma flt_consts [simp]: "\<not> flt f_one f_zero" "\<not> flt f_zero f_zero"
  by (simp_all add: flt_def)

lemma unit_finite:
  assumes "fle f_zero r" and "fle r f_one"
  shows "finite_f r" and "0 \<le> valof r" and "valof r \<le> 1"
proof -
  from assms show v: "0 \<le> valof r" "valof r \<le> 1" by (simp_all add: fle_def)
  from assms have "\<not> is_nan r" by (simp add: fle_def)
  then show "finite_f r" using v by (intro finiteI) simp_all
qed

lemma fsub_one_unit:
  assumes "fle f_zero r" and "fle r f_one"
  shows "finite_f (fsub f_one r)" and "valof (fsub f_one r) = rnd (1 - valof r)"
    and "0 \<le> valof (fsub f_one r)" and "valof (fsub f_one r) \<le> 1"
proof -
  note r = unit_finite [OF assms]
  show v: "valof (fsub f_one r) = rnd (1 - valof r)" using r(1) by (simp add: valof_fsub)
  have "rnd 0 \<le> rnd (1 - valof r)" using r(3) by (intro rnd_mono) simp
  then show lo: "0 \<le> valof (fsub f_one r)" by (simp add: v)
  have "rnd (1 - valof r) \<le> rnd 1" using r(2) by (intro rnd_mono) simp
  then show hi: "valof (fsub f_one r) \<le> 1" by (simp add: v)
  show "finite_f (fsub f_one r)" using r(1) lo hi by (intro finiteI) simp_all
qed

text \<open>The divisor \<open>1 - c\<close> for a float \<open>c\<close> below 1.\<close>

lemma fsub_one_below:
  assumes nn: "\<not> is_nan c" and lt: "valof c < 1"
  shows "\<not> is_nan (fsub f_one c)" and "\<not> fsign (fsub f_one c)" and "0 < valof (fsub f_one c)"
    and "finite_f c \<Longrightarrow> valof (fsub f_one c) = rnd (1 - valof c)"
proof -
  have "\<not> is_nan (fsub f_one c) \<and> \<not> fsign (fsub f_one c) \<and> 0 < valof (fsub f_one c)"
  proof (cases "is_inf c")
    case True
    then have m: "mag c = inf_code" by (simp add: is_inf_def)
    have s: "fsign c"
    proof (rule ccontr)
      assume "\<not> fsign c"
      then have "valof c = 2 ^ 128" by (simp add: valof_def m magval_inf)
      with lt show False by simp
    qed
    have "fsub f_one c = mk_float False inf_code"
      using nn True s m by (simp add: fsub_def fneg_def is_inf_def mag_consts inf_code_def)
    then show ?thesis using inf_code_less by (simp add: valof_mk_float magval_inf)
  next
    case False
    with nn have fin: "finite_f c" by (auto simp add: finite_f_def is_nan_def is_inf_def)
    have v: "valof (fsub f_one c) = rnd (1 - valof c)" using fin by (simp add: valof_fsub)
    from below_one [OF nn lt] have "magval 864026624 \<le> 1 - valof c" by (simp add: magval_ulp_one)
    then have "magval 864026624 \<le> rnd (1 - valof c)" by (intro rnd_ge) (simp_all add: inf_code_def)
    then have pos: "0 < valof (fsub f_one c)" by (simp add: v magval_ulp_one)
    have "\<not> fsign (fsub f_one c)" using pos by (rule valof_pos_sign)
    then show ?thesis using pos fin by simp
  qed
  then show "\<not> is_nan (fsub f_one c)" and "\<not> fsign (fsub f_one c)" and "0 < valof (fsub f_one c)"
    by simp_all
  show "valof (fsub f_one c) = rnd (1 - valof c)" if "finite_f c"
    using that by (simp add: valof_fsub)
qed

text \<open>A quotient of a finite, non-negative float by a positive float or \<open>+\<infinity>\<close>.\<close>

lemma valof_fdiv_pos:
  assumes a: "finite_f a" and b: "\<not> is_nan b" "0 < valof b"
  shows "\<not> is_nan (fdiv a b)"
    and "valof (fdiv a b) = (if is_inf b then 0 else rnd (valof a / valof b))"
proof -
  have z: "\<not> is_zero b" using b(2) by (simp add: is_zero_iff)
  have "\<not> is_nan (fdiv a b) \<and> valof (fdiv a b) = (if is_inf b then 0 else rnd (valof a / valof b))"
  proof (cases "is_inf b")
    case True
    then have "fdiv a b = mk_float (fsign a \<noteq> fsign b) 0"
      using a b(1) by (simp add: fdiv_def finite_not_nan finite_not_inf)
    then show ?thesis using True by (simp add: valof_zero_code inf_code_def)
  next
    case False
    then have "fdiv a b = fround (fsign a \<noteq> fsign b) (valof a / valof b)"
      using a b(1) z by (simp add: fdiv_def finite_not_nan finite_not_inf)
    then show ?thesis using False by (simp add: valof_fround_rnd)
  qed
  then show "\<not> is_nan (fdiv a b)"
    and "valof (fdiv a b) = (if is_inf b then 0 else rnd (valof a / valof b))" by simp_all
qed

lemma fdiv_pos_mono:
  assumes "finite_f a" and "finite_f a'" and "\<not> is_nan b" and "0 < valof b"
    and "valof a' \<le> valof a"
  shows "valof (fdiv a' b) \<le> valof (fdiv a b)"
proof -
  have "valof a' / valof b \<le> valof a / valof b"
    using assms(4,5) by (simp add: divide_right_mono)
  then have "rnd (valof a' / valof b) \<le> rnd (valof a / valof b)" by (rule rnd_mono)
  then show ?thesis
    by (simp add: valof_fdiv_pos(2) [OF assms(1,3,4)] valof_fdiv_pos(2) [OF assms(2,3,4)])
qed

lemma fdiv_pos_unit:
  assumes "finite_f a" and "\<not> is_nan b" and "0 < valof b" and "0 \<le> valof a"
    and "valof a \<le> valof b"
  shows "0 \<le> valof (fdiv a b)" and "valof (fdiv a b) \<le> 1"
proof -
  have "0 \<le> valof a / valof b" using assms(3,4) by simp
  then have "rnd 0 \<le> rnd (valof a / valof b)" by (rule rnd_mono)
  then show "0 \<le> valof (fdiv a b)" by (simp add: valof_fdiv_pos(2) [OF assms(1-3)])
  have "valof a / valof b \<le> 1" using assms(3,5) by simp
  then have "rnd (valof a / valof b) \<le> rnd 1" by (rule rnd_mono)
  then show "valof (fdiv a b) \<le> 1" by (simp add: valof_fdiv_pos(2) [OF assms(1-3)])
qed

text \<open>The falloff \<open>(1 - r) / (1 - c)\<close> of \<open>calcFade\<close> for a range \<open>r\<close> in \<open>[0, 1]\<close> above \<open>c\<close>.\<close>

lemma falloff:
  assumes r: "fle f_zero r" "fle r f_one" and c: "flt c r"
  shows "\<not> is_nan (fdiv (fsub f_one r) (fsub f_one c))"
    and "0 \<le> valof (fdiv (fsub f_one r) (fsub f_one c))"
    and "valof (fdiv (fsub f_one r) (fsub f_one c)) \<le> 1"
proof -
  from c have nn: "\<not> is_nan c" and lt: "valof c < valof r" by (simp_all add: flt_def)
  note u = unit_finite [OF r]
  from lt u(3) have c1: "valof c < 1" by simp
  note a = fsub_one_unit [OF r]
  note b = fsub_one_below [OF nn c1]
  have ab: "valof (fsub f_one r) \<le> valof (fsub f_one c)"
  proof (cases "is_inf c")
    case True
    then have "finite_f (fsub f_one r)" by (simp add: a(1))
    have "fsub f_one c = fneg c" using True nn by (simp add: fsub_def finite_not_inf)
    moreover from True have "mag c = inf_code" by (simp add: is_inf_def)
    moreover have "fsign c" using c1 \<open>mag c = inf_code\<close>
      by (auto simp add: valof_def magval_inf split: if_splits)
    ultimately have "valof (fsub f_one c) = 2 ^ 128"
      using inf_code_less by (simp add: fneg_def valof_mk_float magval_inf)
    with a(4) show ?thesis by simp
  next
    case False
    with nn have fin: "finite_f c" by (auto simp add: finite_f_def is_nan_def is_inf_def)
    have "rnd (1 - valof r) \<le> rnd (1 - valof c)" using lt by (intro rnd_mono) simp
    then show ?thesis by (simp add: a(2) b(4) [OF fin])
  qed
  show "\<not> is_nan (fdiv (fsub f_one r) (fsub f_one c))"
    by (rule valof_fdiv_pos(1) [OF a(1) b(1) b(3)])
  show "0 \<le> valof (fdiv (fsub f_one r) (fsub f_one c))"
    by (rule fdiv_pos_unit(1) [OF a(1) b(1) b(3) a(3) ab])
  show "valof (fdiv (fsub f_one r) (fsub f_one c)) \<le> 1"
    by (rule fdiv_pos_unit(2) [OF a(1) b(1) b(3) a(3) ab])
qed

lemma falloff_mono:
  assumes r: "fle f_zero r" "fle r f_one" and r': "fle r r'" "fle r' f_one" and c: "flt c r"
  shows "fle (fdiv (fsub f_one r') (fsub f_one c)) (fdiv (fsub f_one r) (fsub f_one c))"
proof -
  from c have nn: "\<not> is_nan c" and lt: "valof c < valof r" by (simp_all add: flt_def)
  from r' r have r0: "fle f_zero r'" by (simp add: fle_def)
  from r' c have c': "flt c r'" by (simp add: fle_def flt_def)
  note u = unit_finite [OF r]
  from lt u(3) have c1: "valof c < 1" by simp
  note a = fsub_one_unit [OF r]
  note a' = fsub_one_unit [OF r0 r'(2)]
  note b = fsub_one_below [OF nn c1]
  have "rnd (1 - valof r') \<le> rnd (1 - valof r)" using r'(1) by (intro rnd_mono) (simp add: fle_def)
  then have le: "valof (fsub f_one r') \<le> valof (fsub f_one r)" by (simp add: a(2) a'(2))
  from fdiv_pos_mono [OF a(1) a'(1) b(1) b(3) le] falloff(1) [OF r c] falloff(1) [OF r0 r'(2) c']
  show ?thesis by (simp add: fle_def)
qed

lemma falloff_at_one:
  assumes "\<not> is_nan c" and "valof c < 1"
  shows "fdiv (fsub f_one f_one) (fsub f_one c) = f_zero"
proof -
  note b = fsub_one_below [OF assms]
  have a: "fsub f_one f_one = f_zero"
    by (simp add: fsub_finite fround_zero mk_float_def f_zero_def)
  have z: "\<not> is_zero (fsub f_one c)" using b(3) by (simp add: is_zero_iff)
  have mk0: "mk_float False 0 = f_zero" by (simp add: mk_float_def f_zero_def)
  show ?thesis
    using b(1,2) z
    by (simp add: a fdiv_def finite_not_nan finite_not_inf fround_zero mk0)
qed

lemma calcFade_no_far_fade:
  assumes "farObj (heap st self) = None"
    and "\<forall>n. nearObj (heap st self) = Some n \<longrightarrow> \<not> isActivated (heap st n)"
  shows "fst (calcFade st self range2 ov) =
           (if fgt (sqrtf range2) (streamer_fade_out_factor st)
            then (let f = fdiv (fsub f_one (sqrtf range2)) (fsub f_one (streamer_fade_out_factor st))
                  in if flt f f_zero then f_zero else f)
            else f_one)"
  using assms by (cases "nearObj (heap st self)") (simp_all add: calcFade_def Let_def)

text \<open>
  C2, as amended. For a record with no far neighbour and no activated near neighbour, and
  a range \<open>sqrtf range2\<close> in \<open>[0, 1]\<close>: the fade is exactly 1 when the range is at or
  below the fade-out factor; above it the fade is \<open>(1 - range) / (1 - fadeOutFactor)\<close>,
  each operation rounded to single precision, which never grows with the range (at every
  larger range up to 1 it is the same or smaller) and is 0 at range 1; \<open>imposedFarFade\<close>
  is set to 1.
\<close>

theorem calcFade_no_far:
  assumes far: "farObj (heap st self) = None"
    and near: "\<forall>n. nearObj (heap st self) = Some n \<longrightarrow> \<not> isActivated (heap st n)"
    and r2: "fle f_zero (sqrtf range2)" "fle (sqrtf range2) f_one"
  shows "(fle (sqrtf range2) (streamer_fade_out_factor st) \<longrightarrow>
            fst (calcFade st self range2 ov) = f_one) \<and>
         (flt (streamer_fade_out_factor st) (sqrtf range2) \<longrightarrow>
            fst (calcFade st self range2 ov) =
              fdiv (fsub f_one (sqrtf range2)) (fsub f_one (streamer_fade_out_factor st)) \<and>
            (\<forall>range2'. fle (sqrtf range2) (sqrtf range2') \<and> fle (sqrtf range2') f_one \<longrightarrow>
               fle (fst (calcFade st self range2' ov)) (fst (calcFade st self range2 ov))) \<and>
            fst (calcFade st self f_one ov) = f_zero) \<and>
         imposedFarFade (heap (snd (snd (calcFade st self range2 ov))) self) = f_one"
proof (intro conjI impI allI)
  let ?out = "streamer_fade_out_factor st"
  note fade = calcFade_no_far_fade [OF far near]
  show "imposedFarFade (heap (snd (snd (calcFade st self range2 ov))) self) = f_one"
    using far by (simp add: calcFade_def Let_def split: prod.splits)
  { assume "fle (sqrtf range2) ?out"
    then have "\<not> fgt (sqrtf range2) ?out" by (simp add: fle_def fgt_def flt_def)
    then show "fst (calcFade st self range2 ov) = f_one" by (simp add: fade) }
  assume above: "flt ?out (sqrtf range2)"
  have val: "fst (calcFade st self x ov) = fdiv (fsub f_one (sqrtf x)) (fsub f_one ?out)"
    if "fle f_zero (sqrtf x)" "fle (sqrtf x) f_one" "flt ?out (sqrtf x)" for x
  proof -
    from falloff(2) [OF that] have "\<not> flt (fdiv (fsub f_one (sqrtf x)) (fsub f_one ?out)) f_zero"
      by (simp add: flt_def)
    then show ?thesis using that(3) by (simp add: fade Let_def fgt_def)
  qed
  show "fst (calcFade st self range2 ov) = fdiv (fsub f_one (sqrtf range2)) (fsub f_one ?out)"
    by (rule val [OF r2 above])
  from above r2 have out1: "\<not> is_nan ?out" "valof ?out < 1" by (simp_all add: flt_def fle_def)
  have one: "fle f_zero (sqrtf f_one)" "fle (sqrtf f_one) f_one" "flt ?out (sqrtf f_one)"
    using out1 by (simp_all add: sqrtf_one fle_def flt_def)
  show "fst (calcFade st self f_one ov) = f_zero"
    by (simp add: val [OF one] sqrtf_one falloff_at_one [OF out1])
  fix range2'
  assume h: "fle (sqrtf range2) (sqrtf range2') \<and> fle (sqrtf range2') f_one"
  then have h1: "fle (sqrtf range2) (sqrtf range2')" and h2: "fle (sqrtf range2') f_one" by simp_all
  from h1 r2 have p0: "fle f_zero (sqrtf range2')" by (simp add: fle_def)
  from h1 above have above': "flt ?out (sqrtf range2')" by (simp add: fle_def flt_def)
  show "fle (fst (calcFade st self range2' ov)) (fst (calcFade st self range2 ov))"
    unfolding val [OF r2 above] val [OF p0 h2 above']
    by (rule falloff_mono [OF r2 h1 h2 above])
qed

text \<open>
  The theorem at the fade-out factor \<^verbatim>\<open>0.7f\<close> and the squared ranges \<^verbatim>\<open>0.25f\<close>
  (range \<^verbatim>\<open>0.5f\<close>), \<^verbatim>\<open>0.81f\<close> (\<^verbatim>\<open>0x3F4F5C29\<close>; range \<^verbatim>\<open>0x3F666666\<close>, about 0.9) and
  \<^verbatim>\<open>1.0f\<close>. At \<^verbatim>\<open>0.81f\<close> the fade is \<^verbatim>\<open>0x3EAAAAAD\<close>, about 0.33333340.
\<close>

theorem calcFade_no_far_witness:
  "farObj (heap pair_world 1) = None \<and> \<not> isActivated (heap pair_world 0) \<and>
   streamer_fade_out_factor pair_world = 1060320051 \<and>
   sqrtf 1048576000 = 1056964608 \<and> sqrtf 1062165545 = 1063675494 \<and>
   fst (calcFade pair_world 1 1048576000 False) = f_one \<and>
   fst (calcFade pair_world 1 1062165545 False) = 1051372205 \<and>
   fle (fst (calcFade pair_world 1 f_one False)) (fst (calcFade pair_world 1 1062165545 False)) \<and>
   fst (calcFade pair_world 1 f_one False) = f_zero \<and>
   imposedFarFade (heap (snd (snd (calcFade pair_world 1 1062165545 False))) 1) = f_one"
proof -
  have st: "farObj (heap pair_world 1) = None" "nearObj (heap pair_world 1) = Some 0"
    "\<not> isActivated (heap pair_world 0)" "streamer_fade_out_factor pair_world = 1060320051"
    by (simp_all add: pair_world_def empty_world_def GritObject_new_def isActivated_def)
  have near: "\<forall>n. nearObj (heap pair_world 1) = Some n \<longrightarrow> \<not> isActivated (heap pair_world n)"
    using st by simp
  have sq: "sqrtf 1048576000 = 1056964608" "sqrtf 1062165545 = 1063675494"
    by (simp_all add: float_eval)
  have r: "fle f_zero 1056964608" "fle 1056964608 f_one" "fle 1056964608 1060320051"
    "fle f_zero 1063675494" "fle 1063675494 f_one" "flt 1060320051 1063675494"
    "fle 1063675494 f_one" "fle f_one f_one"
    by (simp_all add: float_eval)
  have q: "fdiv (fsub f_one 1063675494) (fsub f_one 1060320051) = 1051372205"
    by (simp add: float_eval)
  have low: "fst (calcFade pair_world 1 1048576000 False) = f_one"
    using calcFade_no_far [OF st(1) near, of 1048576000 False] by (simp add: st sq r)
  note t = calcFade_no_far [OF st(1) near, of 1062165545 False]
  have above: "flt (streamer_fade_out_factor pair_world) (sqrtf 1062165545)"
    by (simp add: st sq r)
  have hyp: "fle f_zero (sqrtf 1062165545)" "fle (sqrtf 1062165545) f_one" by (simp_all add: sq r)
  from t [OF hyp] above have
    v: "fst (calcFade pair_world 1 1062165545 False) =
          fdiv (fsub f_one (sqrtf 1062165545)) (fsub f_one (streamer_fade_out_factor pair_world))"
    and m: "\<forall>range2'. fle (sqrtf 1062165545) (sqrtf range2') \<and> fle (sqrtf range2') f_one \<longrightarrow>
          fle (fst (calcFade pair_world 1 range2' False)) (fst (calcFade pair_world 1 1062165545 False))"
    and z: "fst (calcFade pair_world 1 f_one False) = f_zero"
    and i: "imposedFarFade (heap (snd (snd (calcFade pair_world 1 1062165545 False))) 1) = f_one"
    by blast+
  have v': "fst (calcFade pair_world 1 1062165545 False) = 1051372205"
    by (simp only: v st sq q)
  have "fle (sqrtf 1062165545) (sqrtf f_one) \<and> fle (sqrtf f_one) f_one"
    by (simp add: sq sqrtf_one r)
  with m have m': "fle (fst (calcFade pair_world 1 f_one False)) (fst (calcFade pair_world 1 1062165545 False))"
    by blast
  show ?thesis using st sq low v' m' z i by (intro conjI)
qed

text \<open>
  C2 as stated fails in single precision: the fade is not strictly decreasing. With the
  fade-out factor \<^verbatim>\<open>0.25f\<close>, the squared ranges \<^verbatim>\<open>0x3D800006\<close> and \<^verbatim>\<open>0x3D800008\<close>
  have the distinct square roots \<^verbatim>\<open>0x3E800003\<close> and \<^verbatim>\<open>0x3E800004\<close> (about 0.25000009
  and 0.25000012), both above the factor, and the same fade \<^verbatim>\<open>0x3F7FFFFD\<close> (about
  0.99999982): \<open>1 - range\<close> is the same float for both.
\<close>

theorem calcFade_no_far_counterexample:
  "farObj (heap quarter_world 1) = None \<and> \<not> isActivated (heap quarter_world 0) \<and>
   streamer_fade_out_factor quarter_world = 1048576000 \<and>
   sqrtf 1031798790 = 1048576003 \<and> sqrtf 1031798792 = 1048576004 \<and>
   flt (streamer_fade_out_factor quarter_world) (sqrtf 1031798790) \<and>
   flt (sqrtf 1031798790) (sqrtf 1031798792) \<and> fle (sqrtf 1031798792) f_one \<and>
   fst (calcFade quarter_world 1 1031798790 False) = 1065353213 \<and>
   fst (calcFade quarter_world 1 1031798792 False) = 1065353213 \<and>
   \<not> flt (fst (calcFade quarter_world 1 1031798792 False))
          (fst (calcFade quarter_world 1 1031798790 False))"
proof -
  have st: "farObj (heap quarter_world 1) = None" "nearObj (heap quarter_world 1) = Some 0"
    "\<not> isActivated (heap quarter_world 0)" "streamer_fade_out_factor quarter_world = 1048576000"
    by (simp_all add: quarter_world_def pair_world_def empty_world_def GritObject_new_def
        isActivated_def)
  have near: "\<forall>n. nearObj (heap quarter_world 1) = Some n \<longrightarrow> \<not> isActivated (heap quarter_world n)"
    using st by simp
  have sq: "sqrtf 1031798790 = 1048576003" "sqrtf 1031798792 = 1048576004"
    by (simp_all add: float_eval)
  have r: "flt 1048576000 1048576003" "flt 1048576003 1048576004" "fle 1048576004 f_one"
    "fgt 1048576003 1048576000" "fgt 1048576004 1048576000"
    by (simp_all add: float_eval)
  have q: "fdiv (fsub f_one 1048576003) (fsub f_one 1048576000) = 1065353213"
    "fdiv (fsub f_one 1048576004) (fsub f_one 1048576000) = 1065353213"
    by (simp_all add: float_eval)
  have c: "\<not> flt 1065353213 f_zero" "\<not> flt 1065353213 1065353213" by (simp_all add: float_eval)
  have f: "fst (calcFade quarter_world 1 1031798790 False) = 1065353213"
    "fst (calcFade quarter_world 1 1031798792 False) = 1065353213"
    by (subst calcFade_no_far_fade [OF st(1) near], simp add: st sq r q c)+
  show ?thesis using st sq r f c by simp
qed

text \<open>The middle of the overlap band.\<close>

lemma overmid_finite:
  assumes "finite_f over" and "valof over < 1"
  shows "finite_f (overmid_of over)" and "valof over < valof (overmid_of over)"
    and "valof (overmid_of over) \<le> 1"
    and "valof over < - 1 \<Longrightarrow> valof (overmid_of over) \<le> 0"
proof -
  note m = mid_finite [OF assms]
  show "finite_f (overmid_of over)" using m(2) by (simp add: overmid_of_def)
  show "valof over < valof (overmid_of over)"
    using mid_above [OF assms] by (simp add: overmid_of_def m(3))
  show "valof (overmid_of over) \<le> 1" using m(4) by (simp add: overmid_of_def)
  show "valof (overmid_of over) \<le> 0" if "valof over < - 1"
  proof -
    have "rnd (valof over + 1) \<le> rnd 0" using that by (intro rnd_mono) simp
    then have "rnd (valof over + 1) / 2 \<le> 0" by simp
    then have "rnd (rnd (valof over + 1) / 2) \<le> rnd 0" by (rule rnd_mono)
    then show ?thesis by (simp add: overmid_of_def m(3))
  qed
qed

lemma overmid_inf:
  assumes "\<not> is_nan over" and "is_inf over"
  shows "overmid_of over = over"
proof -
  from assms(2) have m: "mag over = inf_code" by (simp add: is_inf_def)
  have "fadd over f_one = over" using assms by (simp add: fadd_def finite_not_inf)
  moreover have "fdiv over f_two = mk_float (fsign over) (mag over)"
    using assms by (simp add: fdiv_def finite_not_inf m)
  ultimately show ?thesis by (simp add: overmid_of_def mk_float_fsign_mag)
qed

lemma overmid_weak:
  assumes "\<not> is_nan over" and "valof over < 1"
  shows "\<not> is_nan (overmid_of over)" and "valof over \<le> valof (overmid_of over)"
proof -
  have "\<not> is_nan (overmid_of over) \<and> valof over \<le> valof (overmid_of over)"
  proof (cases "is_inf over")
    case True
    then show ?thesis using assms(1) by (simp add: overmid_inf)
  next
    case False
    with assms(1) have fin: "finite_f over" by (auto simp add: finite_f_def is_nan_def is_inf_def)
    from overmid_finite(1,2) [OF fin assms(2)] show ?thesis by (simp add: finite_not_nan)
  qed
  then show "\<not> is_nan (overmid_of over)" and "valof over \<le> valof (overmid_of over)" by simp_all
qed

lemma finite_lower: "finite_f w \<Longrightarrow> - magval 2139095039 \<le> valof w"
proof -
  assume "finite_f w"
  then have "mag w \<le> 2139095039" by (simp add: finite_f_def inf_code_def)
  then have le: "magval (mag w) \<le> magval 2139095039" by (simp only: magval_le_iff)
  show ?thesis
  proof (cases "fsign w")
    case True
    with le show ?thesis by (simp add: valof_def)
  next
    case False
    have "- magval 2139095039 \<le> 0" by simp
    also have "0 \<le> magval (mag w)" by simp
    finally show ?thesis using False by (simp add: valof_def)
  qed
qed

text \<open>The width of the band is a positive finite float.\<close>

lemma band_width:
  assumes fin: "finite_f over" and lt: "valof over < 1"
  shows "finite_f (fsub (overmid_of over) over)" and "0 < valof (fsub (overmid_of over) over)"
    and "valof (fsub (overmid_of over) over) = rnd (valof (overmid_of over) - valof over)"
proof -
  let ?mid = "overmid_of over"
  note m = overmid_finite [OF fin lt]
  show v: "valof (fsub ?mid over) = rnd (valof ?mid - valof over)"
    using m(1) fin by (simp add: valof_fsub)
  show pos: "0 < valof (fsub ?mid over)" using rnd_diff_pos [OF m(2)] by (simp add: v)
  have "valof ?mid - valof over \<le> magval 2139095039"
  proof (cases "valof over < - 1")
    case True
    from m(4) [OF True] finite_lower [OF fin] show ?thesis by simp
  next
    case False
    have "(2::real) \<le> magval 2139095039" using magval_mono [of 1073741824 2139095039]
      by (simp add: magval_two)
    with False m(3) show ?thesis by simp
  qed
  then have "rnd (valof ?mid - valof over) \<le> magval 2139095039"
    by (intro rnd_le) (simp_all add: inf_code_def)
  moreover have "magval 2139095039 < 2 ^ 128"
  proof -
    have "magval 2139095039 < magval inf_code" by (simp add: inf_code_def)
    then show ?thesis by (simp only: magval_inf)
  qed
  ultimately have "valof (fsub ?mid over) < 2 ^ 128" by (simp add: v)
  moreover have "\<not> is_nan (fsub ?mid over)" using m(1) fin by simp
  ultimately show "finite_f (fsub ?mid over)" using pos by (intro finiteI) simp_all
qed

text \<open>The fade imposed at a range \<open>r\<close> of the band: above \<open>over\<close>, at most \<open>overmid\<close>.\<close>

lemma band_fade:
  assumes fin: "finite_f over" and lt: "valof over < 1"
    and r: "flt over r" "fle r (overmid_of over)"
  shows "finite_f r"
    and "finite_f (fsub (overmid_of over) r)"
    and "valof (fsub (overmid_of over) r) = rnd (valof (overmid_of over) - valof r)"
    and "finite_f (fdiv (fsub (overmid_of over) r) (fsub (overmid_of over) over))"
    and "valof (fdiv (fsub (overmid_of over) r) (fsub (overmid_of over) over)) =
           rnd (valof (fsub (overmid_of over) r) / valof (fsub (overmid_of over) over))"
    and "0 \<le> valof (fdiv (fsub (overmid_of over) r) (fsub (overmid_of over) over))"
    and "valof (fdiv (fsub (overmid_of over) r) (fsub (overmid_of over) over)) \<le> 1"
proof -
  let ?mid = "overmid_of over"
  let ?n = "fsub ?mid r" and ?d = "fsub ?mid over"
  note m = overmid_finite [OF fin lt]
  note d = band_width [OF fin lt]
  from r have nn: "\<not> is_nan r" and lo: "valof over < valof r" and hi: "valof r \<le> valof ?mid"
    by (simp_all add: flt_def fle_def)
  show fr: "finite_f r"
    using nn lo hi m(3) finite_bounds [OF fin] by (intro finiteI) simp_all
  show vn: "valof ?n = rnd (valof ?mid - valof r)" using m(1) fr by (simp add: valof_fsub)
  have "rnd 0 \<le> rnd (valof ?mid - valof r)" using hi by (intro rnd_mono) simp
  then have n0: "0 \<le> valof ?n" by (simp add: vn)
  have "rnd (valof ?mid - valof r) \<le> rnd (valof ?mid - valof over)"
    using lo by (intro rnd_mono) simp
  then have nd: "valof ?n \<le> valof ?d" by (simp add: vn d(3))
  show fn: "finite_f ?n"
    using n0 nd finite_bounds [OF d(1)] m(1) fr by (intro finiteI) simp_all
  have dz: "valof ?d \<noteq> 0" using d(2) by simp
  show vq: "valof (fdiv ?n ?d) = rnd (valof ?n / valof ?d)"
    using fn d(1) dz by (rule valof_fdiv)
  have "rnd 0 \<le> rnd (valof ?n / valof ?d)" using n0 d(2) by (intro rnd_mono) simp
  then show q0: "0 \<le> valof (fdiv ?n ?d)" by (simp add: vq)
  have "rnd (valof ?n / valof ?d) \<le> rnd 1" using nd d(2) by (intro rnd_mono) simp
  then show q1: "valof (fdiv ?n ?d) \<le> 1" by (simp add: vq)
  show "finite_f (fdiv ?n ?d)"
    using q0 q1 fn d(1) dz by (intro finiteI) simp_all
qed

lemma band_fade_unit:
  assumes "finite_f over" and "valof over < 1" and "flt over r" and "fle r (overmid_of over)"
  shows "fle f_zero (fsub f_one (fdiv (fsub (overmid_of over) r) (fsub (overmid_of over) over)))"
    and "fle (fsub f_one (fdiv (fsub (overmid_of over) r) (fsub (overmid_of over) over))) f_one"
proof -
  note b = band_fade [OF assms]
  have u: "fle f_zero (fdiv (fsub (overmid_of over) r) (fsub (overmid_of over) over))"
    "fle (fdiv (fsub (overmid_of over) r) (fsub (overmid_of over) over)) f_one"
    using b(4,6,7) by (simp_all add: fle_def finite_not_nan)
  from fsub_one_unit [OF u]
  show "fle f_zero (fsub f_one (fdiv (fsub (overmid_of over) r) (fsub (overmid_of over) over)))"
    and "fle (fsub f_one (fdiv (fsub (overmid_of over) r) (fsub (overmid_of over) over))) f_one"
    by (simp_all add: fle_def finite_not_nan)
qed

lemma band_fade_mono:
  assumes fin: "finite_f over" and lt: "valof over < 1"
    and r: "flt over r" "fle r r'" "fle r' (overmid_of over)"
  shows "fle (fsub f_one (fdiv (fsub (overmid_of over) r) (fsub (overmid_of over) over)))
             (fsub f_one (fdiv (fsub (overmid_of over) r') (fsub (overmid_of over) over)))"
proof -
  let ?mid = "overmid_of over"
  from r have r1: "fle r ?mid" and r2: "flt over r'" by (simp_all add: fle_def flt_def)
  note b = band_fade [OF fin lt r(1) r1]
  note b' = band_fade [OF fin lt r2 r(3)]
  note d = band_width [OF fin lt]
  have "rnd (valof ?mid - valof r') \<le> rnd (valof ?mid - valof r)"
    using r(2) by (intro rnd_mono) (simp add: fle_def)
  then have "valof (fsub ?mid r') / valof (fsub ?mid over) \<le> valof (fsub ?mid r) / valof (fsub ?mid over)"
    using d(2) by (simp add: b(3) b'(3) divide_right_mono)
  then have "rnd (valof (fsub ?mid r') / valof (fsub ?mid over)) \<le>
             rnd (valof (fsub ?mid r) / valof (fsub ?mid over))" by (rule rnd_mono)
  then have q: "valof (fdiv (fsub ?mid r') (fsub ?mid over)) \<le> valof (fdiv (fsub ?mid r) (fsub ?mid over))"
    by (simp add: b(5) b'(5))
  have "rnd (1 - valof (fdiv (fsub ?mid r) (fsub ?mid over))) \<le>
        rnd (1 - valof (fdiv (fsub ?mid r') (fsub ?mid over)))"
    using q by (intro rnd_mono) simp
  then show ?thesis using b(4) b'(4) by (simp add: fle_def valof_fsub)
qed

lemma band_fade_top:
  assumes fin: "finite_f over" and lt: "valof over < 1" and r: "feq r (overmid_of over)"
  shows "fsub f_one (fdiv (fsub (overmid_of over) r) (fsub (overmid_of over) over)) = f_one"
proof -
  let ?mid = "overmid_of over"
  note m = overmid_finite [OF fin lt]
  note d = band_width [OF fin lt]
  from r have nn: "\<not> is_nan r" and eq: "valof r = valof ?mid" by (simp_all add: feq_def)
  have fr: "finite_f r" using nn eq finite_bounds [OF m(1)] by (intro finiteI) simp_all
  have "fsub ?mid r = mk_float (fsign ?mid \<and> \<not> fsign r) 0"
    using m(1) fr eq by (simp add: fsub_finite fround_zero)
  then obtain s0 where n: "fsub ?mid r = mk_float s0 0" by blast
  have "fdiv (mk_float s0 0) (fsub ?mid over) = mk_float (s0 \<noteq> fsign (fsub ?mid over)) 0"
    using d(1,2) by (simp add: fdiv_finite finite_zero_code valof_zero_code fround_zero)
  then obtain s1 where q: "fdiv (fsub ?mid r) (fsub ?mid over) = mk_float s1 0"
    by (simp add: n)
  show ?thesis
    by (simp add: q fsub_finite finite_zero_code valof_zero_code fround_one)
qed

lemma farFade_far:
  assumes "farObj (heap st self) \<noteq> None"
  shows "farFade_after st self range2 ov =
           (let over = streamer_fade_overlap_factor st; r = sqrtf range2 in
            if fgt r (overmid_of over) then f_one
            else if fgt r over
                 then (let f = fsub f_one (fdiv (fsub (overmid_of over) r)
                                               (fsub (overmid_of over) over))
                       in if flt f f_zero then f_zero else f)
                 else f_zero)"
  using assms
  by (auto simp add: farFade_after_def calcFade_def overmid_of_def Let_def split: prod.splits)

text \<open>
  C3, as amended. For a record with a far neighbour and an overlap factor below 1, with
  \<open>overmid\<close> the float \<open>(overlapFactor + 1) / 2\<close> that \<open>calcFade\<close> computes:
  \<open>imposedFarFade\<close> is set to 0 at every range at or below the overlap factor, to 1 at
  range \<open>overmid\<close>, and to a value that grows (weakly) with the range on the band from
  the overlap factor to \<open>overmid\<close>. The range is \<open>sqrtf range2\<close>, a number that is not
  negative.
\<close>

theorem calcFade_far:
  assumes far: "farObj (heap st self) \<noteq> None"
    and over1: "flt (streamer_fade_overlap_factor st) f_one"
    and r2: "fle f_zero (sqrtf range2)"
  shows "(fle (sqrtf range2) (streamer_fade_overlap_factor st) \<longrightarrow>
            farFade_after st self range2 ov = f_zero) \<and>
         (feq (sqrtf range2) (overmid_of (streamer_fade_overlap_factor st)) \<longrightarrow>
            farFade_after st self range2 ov = f_one) \<and>
         (\<forall>range2'. fle (streamer_fade_overlap_factor st) (sqrtf range2) \<and>
                     fle (sqrtf range2) (sqrtf range2') \<and>
                     fle (sqrtf range2') (overmid_of (streamer_fade_overlap_factor st)) \<longrightarrow>
            fle (farFade_after st self range2 ov) (farFade_after st self range2' ov))"
proof (intro conjI impI allI)
  let ?over = "streamer_fade_overlap_factor st"
  let ?mid = "overmid_of ?over"
  let ?r = "sqrtf range2"
  let ?f = "\<lambda>r. fsub f_one (fdiv (fsub ?mid r) (fsub ?mid ?over))"
  from over1 have nn: "\<not> is_nan ?over" and lt: "valof ?over < 1" by (simp_all add: flt_def)
  note w = overmid_weak [OF nn lt]
  have val: "farFade_after st self x ov = ?f (sqrtf x)"
    if "finite_f ?over" "flt ?over (sqrtf x)" "fle (sqrtf x) ?mid" for x
  proof -
    from band_fade_unit(1) [OF that(1) lt that(2,3)] have "\<not> flt (?f (sqrtf x)) f_zero"
      by (simp add: fle_def flt_def)
    moreover from that(3) have "\<not> fgt (sqrtf x) ?mid" by (simp add: fle_def fgt_def flt_def)
    ultimately show ?thesis using that(2) by (simp add: farFade_far [OF far] Let_def fgt_def)
  qed
  have bottom: "farFade_after st self x ov = f_zero" if "fle (sqrtf x) ?over" for x
  proof -
    from that have a: "\<not> fgt (sqrtf x) ?over" by (simp add: fle_def fgt_def flt_def)
    from that w(2) have "\<not> fgt (sqrtf x) ?mid" by (simp add: fle_def fgt_def flt_def)
    with a show ?thesis by (simp add: farFade_far [OF far] Let_def)
  qed
  { assume "fle ?r ?over"
    then show "farFade_after st self range2 ov = f_zero" by (rule bottom) }
  { assume eq: "feq ?r ?mid"
    have fin: "finite_f ?over"
    proof (rule ccontr)
      assume "\<not> finite_f ?over"
      with nn have i: "is_inf ?over" by (auto simp add: finite_f_def is_nan_def is_inf_def)
      then have "?mid = ?over" using nn by (simp add: overmid_inf)
      with eq r2 have "0 \<le> valof ?over" by (simp add: feq_def fle_def)
      moreover have "valof ?over = - (2 ^ 128)"
        using i lt by (auto simp add: is_inf_def valof_def magval_inf split: if_splits)
      ultimately show False by simp
    qed
    note m = overmid_finite [OF fin lt]
    from eq m(2) nn have above: "flt ?over ?r" and top: "fle ?r ?mid"
      by (simp_all add: feq_def flt_def fle_def)
    show "farFade_after st self range2 ov = f_one"
      by (simp only: val [OF fin above top] band_fade_top [OF fin lt eq]) }
  fix range2'
  let ?r' = "sqrtf range2'"
  assume h: "fle ?over ?r \<and> fle ?r ?r' \<and> fle ?r' ?mid"
  then have h1: "fle ?over ?r" and h2: "fle ?r ?r'" and h3: "fle ?r' ?mid" by simp_all
  from h2 h3 have h4: "fle ?r ?mid" by (simp add: fle_def)
  show "fle (farFade_after st self range2 ov) (farFade_after st self range2' ov)"
  proof (cases "flt ?over ?r")
    case True
    have fin: "finite_f ?over"
    proof (rule ccontr)
      assume "\<not> finite_f ?over"
      with nn have i: "is_inf ?over" by (auto simp add: finite_f_def is_nan_def is_inf_def)
      then have "?mid = ?over" using nn by (simp add: overmid_inf)
      with h4 True show False by (simp add: fle_def flt_def)
    qed
    from True h2 have above': "flt ?over ?r'" by (simp add: fle_def flt_def)
    show ?thesis
      unfolding val [OF fin True h4] val [OF fin above' h3]
      by (rule band_fade_mono [OF fin lt True h2 h3])
  next
    case False
    with h1 have "fle ?r ?over" by (simp add: fle_def flt_def)
    then have z: "farFade_after st self range2 ov = f_zero" by (rule bottom)
    have "fle f_zero (farFade_after st self range2' ov)"
    proof (cases "flt ?over ?r'")
      case above': True
      have fin: "finite_f ?over"
      proof (rule ccontr)
        assume "\<not> finite_f ?over"
        with nn have i: "is_inf ?over" by (auto simp add: finite_f_def is_nan_def is_inf_def)
        then have "?mid = ?over" using nn by (simp add: overmid_inf)
        with h3 above' show False by (simp add: fle_def flt_def)
      qed
      show ?thesis
        unfolding val [OF fin above' h3] by (rule band_fade_unit(1) [OF fin lt above' h3])
    next
      case False
      with h1 h2 have "fle ?r' ?over" by (simp add: fle_def flt_def)
      then have "farFade_after st self range2' ov = f_zero" by (rule bottom)
      then show ?thesis by (simp add: fle_def)
    qed
    then show ?thesis by (simp add: z)
  qed
qed

text \<open>
  The theorem at the overlap factor \<^verbatim>\<open>0.7f\<close> (\<open>overmid\<close> is \<^verbatim>\<open>0x3F59999A\<close>, about 0.85)
  and the squared ranges \<^verbatim>\<open>0.49f\<close>, \<^verbatim>\<open>0.64f\<close> and \<^verbatim>\<open>0.7225f\<close>, whose square roots are
  the overlap factor, \<^verbatim>\<open>0x3F4CCCCD\<close> (about 0.8) and \<open>overmid\<close>.
\<close>

theorem calcFade_far_witness:
  "farObj (heap pair_world 0) \<noteq> None \<and> flt (streamer_fade_overlap_factor pair_world) f_one \<and>
   streamer_fade_overlap_factor pair_world = 1060320051 \<and>
   overmid_of (streamer_fade_overlap_factor pair_world) = 1062836634 \<and>
   sqrtf 1056629064 = 1060320051 \<and> sqrtf 1059313418 = 1061997773 \<and>
   sqrtf 1060697539 = 1062836634 \<and>
   farFade_after pair_world 0 1056629064 False = f_zero \<and>
   farFade_after pair_world 0 1060697539 False = f_one \<and>
   fle (farFade_after pair_world 0 1056629064 False) (farFade_after pair_world 0 1059313418 False) \<and>
   fle (farFade_after pair_world 0 1059313418 False) (farFade_after pair_world 0 1060697539 False)"
proof -
  have st: "farObj (heap pair_world 0) \<noteq> None" "streamer_fade_overlap_factor pair_world = 1060320051"
    by (simp_all add: pair_world_def empty_world_def GritObject_new_def)
  have over1: "flt (streamer_fade_overlap_factor pair_world) f_one"
    by (simp add: st float_eval)
  have mid: "overmid_of (streamer_fade_overlap_factor pair_world) = 1062836634"
    by (simp add: st overmid_of_def float_eval)
  have sq: "sqrtf 1056629064 = 1060320051" "sqrtf 1059313418 = 1061997773"
    "sqrtf 1060697539 = 1062836634"
    by (simp_all add: float_eval)
  have r: "fle f_zero 1060320051" "fle f_zero 1061997773" "fle f_zero 1062836634"
    "fle 1060320051 1060320051" "feq 1062836634 1062836634"
    "fle 1060320051 1061997773" "fle 1061997773 1062836634" "fle 1062836634 1062836634"
    by (simp_all add: float_eval feq_def)
  note low = calcFade_far [OF st(1) over1, of 1056629064 False]
  note mdl = calcFade_far [OF st(1) over1, of 1059313418 False]
  note high = calcFade_far [OF st(1) over1, of 1060697539 False]
  have a: "farFade_after pair_world 0 1056629064 False = f_zero"
    using low by (simp add: st sq r)
  have b: "farFade_after pair_world 0 1060697539 False = f_one"
    using high by (simp add: mid sq r)
  have "fle (streamer_fade_overlap_factor pair_world) (sqrtf 1056629064) \<and>
        fle (sqrtf 1056629064) (sqrtf 1059313418) \<and>
        fle (sqrtf 1059313418) (overmid_of (streamer_fade_overlap_factor pair_world))"
    by (simp add: mid) (simp add: st sq r)
  with low have c: "fle (farFade_after pair_world 0 1056629064 False)
      (farFade_after pair_world 0 1059313418 False)"
    by (simp add: sq r)
  have "fle (streamer_fade_overlap_factor pair_world) (sqrtf 1059313418) \<and>
        fle (sqrtf 1059313418) (sqrtf 1060697539) \<and>
        fle (sqrtf 1060697539) (overmid_of (streamer_fade_overlap_factor pair_world))"
    by (simp add: mid) (simp add: st sq r)
  with mdl have d: "fle (farFade_after pair_world 0 1059313418 False)
      (farFade_after pair_world 0 1060697539 False)"
    by (simp add: sq r)
  show ?thesis using st over1 mid sq a b c d by (intro conjI)
qed

text \<open>
  C3 as stated fails when the overlap factor is 1: then \<open>overmid\<close> is 1 too, the band is
  empty, and at range \<open>overmid\<close> the code sets \<open>imposedFarFade\<close> to 0, not 1.
\<close>

theorem calcFade_far_counterexample:
  "farObj (heap overlap1_world 0) \<noteq> None \<and>
   streamer_fade_overlap_factor overlap1_world = f_one \<and>
   overmid_of (streamer_fade_overlap_factor overlap1_world) = f_one \<and>
   sqrtf f_one = f_one \<and>
   feq (sqrtf f_one) (overmid_of (streamer_fade_overlap_factor overlap1_world)) \<and>
   farFade_after overlap1_world 0 f_one False = f_zero"
proof -
  have st: "farObj (heap overlap1_world 0) \<noteq> None"
    "streamer_fade_overlap_factor overlap1_world = f_one"
    by (simp_all add: overlap1_world_def pair_world_def empty_world_def GritObject_new_def)
  have mid: "overmid_of f_one = f_one" by (simp add: overmid_of_def float_eval)
  have c: "\<not> fgt f_one f_one" "feq f_one f_one" by (simp_all add: fgt_def flt_def feq_def)
  have "farFade_after overlap1_world 0 f_one False = f_zero"
    by (subst farFade_far [OF st(1)]) (simp add: st mid sqrtf_one c)
  then show ?thesis using st mid sqrtf_one c by simp
qed

text \<open>
  C9. If the range \<open>sqrtf range2\<close> is in \<open>[0, 1]\<close>, the fade-out and overlap factors are in
  \<open>[0, 1)\<close> and the \<open>imposedFarFade\<close> of an activated near neighbour is in \<open>[0, 1]\<close>, then
  the returned fade and the \<open>imposedFarFade\<close> written are in \<open>[0, 1]\<close>: no rounding
  takes them above 1 or makes them a NaN.
\<close>

theorem calcFade_bounds:
  assumes r2: "fle f_zero (sqrtf range2)" "fle (sqrtf range2) f_one"
    and out: "fle f_zero (streamer_fade_out_factor st)" "flt (streamer_fade_out_factor st) f_one"
    and over: "fle f_zero (streamer_fade_overlap_factor st)"
      "flt (streamer_fade_overlap_factor st) f_one"
    and near: "\<forall>n. nearObj (heap st self) = Some n \<and> isActivated (heap st n) \<longrightarrow>
                 fle f_zero (imposedFarFade (heap st n)) \<and> fle (imposedFarFade (heap st n)) f_one"
  shows "fle f_zero (fst (calcFade st self range2 ov)) \<and> fle (fst (calcFade st self range2 ov)) f_one \<and>
         fle f_zero (farFade_after st self range2 ov) \<and> fle (farFade_after st self range2 ov) f_one"
proof -
  let ?out = "streamer_fade_out_factor st"
  let ?over = "streamer_fade_overlap_factor st"
  let ?mid = "overmid_of ?over"
  let ?r = "sqrtf range2"
  define fade0 where "fade0 = (case nearObj (heap st self) of None \<Rightarrow> f_one
     | Some n \<Rightarrow> if isActivated (heap st n) then imposedFarFade (heap st n) else f_one)"
  have f0: "fle f_zero fade0 \<and> fle fade0 f_one"
    using near by (auto simp add: fade0_def fle_def split: option.splits)
  have clamp: "(if flt w f_zero then f_zero else w) = w" if "fle f_zero w" for w
    using that by (simp add: fle_def flt_def)
  have one: "fle f_zero f_one \<and> fle f_one f_one" and zero: "fle f_zero f_zero \<and> fle f_zero f_one"
    by (simp_all add: fle_def)
  from over have fin: "finite_f ?over" and lt: "valof ?over < 1"
    using unit_finite(1) [of ?over] by (simp_all add: fle_def flt_def)
  have a: "fle f_zero (fdiv (fsub f_one ?r) (fsub f_one c)) \<and>
           fle (fdiv (fsub f_one ?r) (fsub f_one c)) f_one" if "fgt ?r c" for c
    using falloff [OF r2, of c] that by (simp add: fgt_def fle_def)
  have b: "fle f_zero (fsub f_one (fdiv (fsub ?mid ?r) (fsub ?mid ?over))) \<and>
           fle (fsub f_one (fdiv (fsub ?mid ?r) (fsub ?mid ?over))) f_one"
    if "fgt ?r ?over" "\<not> fgt ?r ?mid"
  proof -
    from that(2) r2 overmid_finite(1) [OF fin lt] have "fle ?r ?mid"
      by (simp add: fgt_def flt_def fle_def finite_not_nan)
    with band_fade_unit [OF fin lt _ this] that(1) show ?thesis by (simp add: fgt_def)
  qed
  show ?thesis
  proof (cases "farObj (heap st self) = None")
    case True
    then show ?thesis
      using f0 one a [of ?out]
      by (simp add: farFade_after_def calcFade_def Let_def fade0_def [symmetric] clamp
          split: prod.splits)
  next
    case False
    then obtain fo where "farObj (heap st self) = Some fo" by blast
    then show ?thesis
      using f0 one zero a [of ?mid] b
      by (simp add: farFade_after_def calcFade_def Let_def fade0_def [symmetric] clamp
          overmid_of_def [symmetric] split: prod.splits)
  qed
qed

text \<open>
  The theorem at the squared range \<^verbatim>\<open>0.25f\<close> (range \<^verbatim>\<open>0.5f\<close>) with an activated near
  neighbour that imposes the fade \<^verbatim>\<open>0.5f\<close>, which is the fade returned.
\<close>

theorem calcFade_bounds_witness:
  "sqrtf 1048576000 = 1056964608 \<and> fle f_zero 1056964608 \<and> fle 1056964608 f_one \<and>
   nearObj (heap active_pair_world 1) = Some 0 \<and> isActivated (heap active_pair_world 0) \<and>
   imposedFarFade (heap active_pair_world 0) = 1056964608 \<and>
   fst (calcFade active_pair_world 1 1048576000 False) = 1056964608 \<and>
   fle f_zero (fst (calcFade active_pair_world 1 1048576000 False)) \<and>
   fle (fst (calcFade active_pair_world 1 1048576000 False)) f_one \<and>
   fle f_zero (farFade_after active_pair_world 1 1048576000 False) \<and>
   fle (farFade_after active_pair_world 1 1048576000 False) f_one"
proof -
  have st: "nearObj (heap active_pair_world 1) = Some 0" "isActivated (heap active_pair_world 0)"
    "imposedFarFade (heap active_pair_world 0) = 1056964608"
    "streamer_fade_out_factor active_pair_world = 1060320051"
    "streamer_fade_overlap_factor active_pair_world = 1060320051"
    "farObj (heap active_pair_world 1) = None"
    by (simp_all add: active_pair_world_def pair_world_def empty_world_def GritObject_new_def
        isActivated_def upd_obj_def)
  have sq: "sqrtf 1048576000 = 1056964608" by (simp add: float_eval)
  have r: "fle f_zero 1056964608" "fle 1056964608 f_one" "fle f_zero 1060320051"
    "flt 1060320051 f_one" "\<not> fgt 1056964608 1060320051" "\<not> flt 1056964608 f_zero"
    by (simp_all add: float_eval)
  have near: "\<forall>n. nearObj (heap active_pair_world 1) = Some n \<and> isActivated (heap active_pair_world n) \<longrightarrow>
      fle f_zero (imposedFarFade (heap active_pair_world n)) \<and>
      fle (imposedFarFade (heap active_pair_world n)) f_one"
    using st by (simp add: r)
  have v: "fst (calcFade active_pair_world 1 1048576000 False) = 1056964608"
    by (simp add: calcFade_def Let_def active_pair_world_def pair_world_def empty_world_def
        GritObject_new_def isActivated_def upd_obj_def sq r)
  have "fle f_zero (fst (calcFade active_pair_world 1 1048576000 False)) \<and>
        fle (fst (calcFade active_pair_world 1 1048576000 False)) f_one \<and>
        fle f_zero (farFade_after active_pair_world 1 1048576000 False) \<and>
        fle (farFade_after active_pair_world 1 1048576000 False) f_one"
    by (rule calcFade_bounds [OF _ _ _ _ _ _ near]) (simp_all add: st sq r)
  then show ?thesis using st sq r v by simp
qed

subsection \<open>Deleting twice\<close>

lemma destroy_destroyed:
  "gritClass (heap st self) = None \<Longrightarrow> destroy L st self = Some (Inr st)"
  by (simp add: destroy_def ok_def)

lemma object_del_destroyed:
  "gritClass (heap st self) = None \<Longrightarrow>
     object_del L st self =
       Some (Inr (let st2 = streamer_unlist self st in
                  if map_of (objs st2) (name (heap st2 self)) \<noteq> None
                  then st2\<lparr>objs := AList.delete (name (heap st2 self)) (objs st2)\<rparr> else st2))"
  by (simp add: object_del_def destroy_destroyed Let_def ok_def)

text \<open>
  C7 fails on the code. \<open>destroy\<close> on a destroyed record is a no-op
  (\<open>destroy_destroyed\<close>), but \<open>object_del\<close> then erases whatever the registry holds
  under the record's name. After \<^verbatim>\<open>object_add(L, "a", c)\<close> twice, the first record
  (address 0) is destroyed and the registry maps \<^verbatim>\<open>"a"\<close> to the second (address 1).
  \<open>object_del\<close> on the first handle, a second delete of a destroyed record, empties the
  registry, while the second record is still alive and listed with the streamer.
\<close>

theorem object_del_stale_handle:
  "gritClass (heap twice_added_world 0) = None \<and>
   map_of (objs twice_added_world) ''a'' = Some 1 \<and>
   gritClass (heap twice_added_world 1) = Some ''c'' \<and>
   (case object_del (run_cmds 0) twice_added_world 0 of
      Some (Inr st) \<Rightarrow> objs st = [] \<and> gritClass (heap st 1) = Some ''c'' \<and> streamer_objs st = [1]
    | _ \<Rightarrow> False)"
  by (simp add: twice_added_world_def example_defs call_defs prim_defs Let_def)

subsection \<open>Anonymous names\<close>

lemma digit_inj: "d < 10 \<Longrightarrow> e < 10 \<Longrightarrow> digit d = digit e \<Longrightarrow> d = e"
proof -
  assume a: "d < 10" "e < 10" "digit d = digit e"
  have dist: "distinct ''0123456789''" by simp
  have len: "length ''0123456789'' = 10" by simp
  from a(3) have "''0123456789'' ! d = ''0123456789'' ! e" by (simp only: digit_def)
  with dist a(1,2) len show ?thesis by (simp only: nth_eq_iff_index_eq)
qed

lemma dec_nonempty: "dec n \<noteq> []"
  by (subst dec.simps) simp

lemma dec_inj: "dec n = dec m \<Longrightarrow> n = m"
proof (induction n arbitrary: m rule: dec.induct)
  case (1 n)
  show ?case
  proof (cases "n < 10")
    case True
    then have n: "dec n = [digit n]" by (subst dec.simps) simp
    show ?thesis
    proof (cases "m < 10")
      case True
      then have "dec m = [digit m]" by (subst dec.simps) simp
      with n "1.prems" \<open>n < 10\<close> True show ?thesis by (simp add: digit_inj)
    next
      case False
      then have "dec m = dec (m div 10) @ [digit (m mod 10)]" by (subst dec.simps) simp
      with n "1.prems" dec_nonempty [of "m div 10"] show ?thesis by simp
    qed
  next
    case False
    then have n: "dec n = dec (n div 10) @ [digit (n mod 10)]" by (subst dec.simps) simp
    show ?thesis
    proof (cases "m < 10")
      case True
      then have "dec m = [digit m]" by (subst dec.simps) simp
      with n "1.prems" dec_nonempty [of "n div 10"] show ?thesis by simp
    next
      case m: False
      then have "dec m = dec (m div 10) @ [digit (m mod 10)]" by (subst dec.simps) simp
      with n "1.prems" have e: "dec (n div 10) = dec (m div 10)" "digit (n mod 10) = digit (m mod 10)"
        by simp_all
      from "1.IH" [OF False e(1)] have "n div 10 = m div 10" .
      moreover from e(2) have "n mod 10 = m mod 10" by (intro digit_inj) simp_all
      ultimately show ?thesis by (metis div_mult_mod_eq)
    qed
  qed
qed

lemma unnamed_inj: "unnamed cls a = unnamed cls b \<Longrightarrow> a = b"
proof -
  assume "unnamed cls a = unnamed cls b"
  then have "dec (unat a) = dec (unat b)" by (simp add: unnamed_def)
  then have "unat a = unat b" by (rule dec_inj)
  then show ?thesis by (simp add: word_unat_eq_iff)
qed

lemma gen_name_taken:
  "map_of al (unnamed cls c) \<noteq> None \<Longrightarrow> gen_name al cls c = gen_name al cls (c + 1)"
proof -
  assume a: "map_of al (unnamed cls c) \<noteq> None"
  show ?thesis by (subst gen_name.simps) (simp only: a simp_thms if_True)
qed

lemma gen_name_free:
  "map_of al (unnamed cls c) = None \<Longrightarrow> gen_name al cls c = Some (unnamed cls c, c + 1)"
proof -
  assume a: "map_of al (unnamed cls c) = None"
  show ?thesis by (subst gen_name.simps) (simp only: a simp_thms if_False)
qed

lemma gen_name_steps:
  "map_of al (unnamed cls (c + of_nat k)) = None \<Longrightarrow>
   (\<forall>j<k. map_of al (unnamed cls (c + of_nat j)) \<noteq> None) \<Longrightarrow>
   gen_name al cls c = Some (unnamed cls (c + of_nat k), c + of_nat k + 1)"
proof (induction k arbitrary: c)
  case 0
  then show ?case using gen_name_free [of al cls c] by simp
next
  case (Suc k)
  have eq: "c + 1 + (of_nat j :: 64 word) = c + of_nat (Suc j)" for j
    by simp
  from Suc.prems(2) have "map_of al (unnamed cls (c + of_nat 0)) \<noteq> None" by blast
  then have taken: "map_of al (unnamed cls c) \<noteq> None" by simp
  have a: "map_of al (unnamed cls (c + 1 + of_nat k)) = None"
    using Suc.prems(1) unfolding eq .
  have b: "\<forall>j<k. map_of al (unnamed cls (c + 1 + of_nat j)) \<noteq> None"
    unfolding eq using Suc.prems(2) by auto
  have "gen_name al cls c = gen_name al cls (c + 1)"
    using taken by (rule gen_name_taken)
  also have "\<dots> = Some (unnamed cls (c + 1 + of_nat k), c + 1 + of_nat k + 1)"
    by (rule Suc.IH [OF a b])
  finally show ?case unfolding eq .
qed

lemma free_name_exists:
  assumes "unat c + length al < 2 ^ 64"
  shows "\<exists>k\<le>length al. map_of al (unnamed cls (c + of_nat k)) = None"
proof (rule ccontr)
  assume "\<not> ?thesis"
  then have all: "\<forall>k\<le>length al. unnamed cls (c + of_nat k) \<in> fst ` set al"
    by (auto simp add: map_of_eq_None_iff)
  let ?f = "\<lambda>k::nat. unnamed cls (c + of_nat k)"
  have inj: "inj_on ?f {0..length al}"
  proof (rule inj_onI)
    fix x y assume xy: "x \<in> {0..length al}" "y \<in> {0..length al}" "?f x = ?f y"
    then have "c + of_nat x = c + (of_nat y :: 64 word)" by (rule_tac unnamed_inj)
    then have "(of_nat x :: 64 word) = of_nat y" by simp
    then have "unat (of_nat x :: 64 word) = unat (of_nat y :: 64 word)" by simp
    moreover have "x < 2 ^ 64" "y < 2 ^ 64" using xy assms by simp_all
    ultimately show "x = y" by (simp add: unat_of_nat take_bit_nat_eq_self)
  qed
  have "?f ` {0..length al} \<subseteq> fst ` set al" using all by auto
  then have "card (?f ` {0..length al}) \<le> card (fst ` set al)" by (intro card_mono) simp_all
  also have "\<dots> \<le> length al" by (metis card_image_le card_length le_trans List.finite_set)
  finally show False by (simp add: card_image [OF inj])
qed

lemma gen_name_returns:
  assumes "unat c + length al < 2 ^ 64"
  shows "\<exists>k\<le>length al. gen_name al cls c = Some (unnamed cls (c + of_nat k), c + of_nat k + 1) \<and>
           map_of al (unnamed cls (c + of_nat k)) = None"
proof -
  let ?P = "\<lambda>k. k \<le> length al \<and> map_of al (unnamed cls (c + of_nat k)) = None"
  from free_name_exists [OF assms] have ex: "\<exists>k. ?P k" by blast
  define k where "k = (LEAST k. ?P k)"
  have Pk: "?P k" unfolding k_def using ex by (rule LeastI_ex)
  have least: "\<forall>j<k. map_of al (unnamed cls (c + of_nat j)) \<noteq> None"
  proof (intro allI impI)
    fix j assume j: "j < k"
    then have "\<not> ?P j" unfolding k_def by (rule not_less_Least)
    moreover have "j \<le> length al" using j Pk by simp
    ultimately show "map_of al (unnamed cls (c + of_nat j)) \<noteq> None" by simp
  qed
  from Pk have free: "map_of al (unnamed cls (c + of_nat k)) = None" and le: "k \<le> length al"
    by simp_all
  show ?thesis
    using gen_name_steps [OF free least] free le by (intro exI [of _ k]) (simp only: simp_thms)
qed

lemma update_fresh: "map_of al k = None \<Longrightarrow> AList.update k v al = al @ [(k, v)]"
  by (induction al) auto

lemma object_add_unnamed:
  assumes "unat (name_generation_counter st) + length (objs st) < 2 ^ 64"
  shows "\<exists>k st'. k \<le> length (objs st) \<and>
           map_of (objs st) (unnamed cls (name_generation_counter st + of_nat k)) = None \<and>
           object_add L st [] cls = Some (Inr (next_handle st, st')) \<and>
           name (heap st' (next_handle st)) = unnamed cls (name_generation_counter st + of_nat k) \<and>
           anonymous (heap st' (next_handle st)) \<and>
           objs st' = objs st @ [(unnamed cls (name_generation_counter st + of_nat k), next_handle st)] \<and>
           name_generation_counter st' = name_generation_counter st + of_nat k + 1"
proof -
  from gen_name_returns [OF assms, of cls] obtain k where k: "k \<le> length (objs st)"
    and gen: "gen_name (objs st) cls (name_generation_counter st) =
      Some (unnamed cls (name_generation_counter st + of_nat k), name_generation_counter st + of_nat k + 1)"
    and free: "map_of (objs st) (unnamed cls (name_generation_counter st + of_nat k)) = None"
    by blast
  show ?thesis
    using k free
    by (intro exI [of _ k]) (simp add: object_add_def gen prim_defs Let_def ok_def GritObject_new_def update_fresh)
qed

lemma dec_examples:
  "dec 0 = ''0''" "dec 1 = ''1''" "dec 18446744073709551615 = ''18446744073709551615''"
  by (simp_all add: dec.simps digit_def)

lemma unat_max_word64: "unat (- 1 :: 64 word) = 18446744073709551615"
  by (simp add: unsigned_minus_1_eq_mask mask_eq_exp_minus_1)

text \<open>
  C6, as amended. When the name counter is far enough from the end of its 64 bits
  (counter + 2 * size of the registry + 2 is below \<open>2^64\<close>), two successive
  \<^verbatim>\<open>object_add(L, "", c)\<close> both return; each name has the form
  \<^verbatim>\<open>Unnamed:<class>:<counter>\<close> and is not a key of the registry at the time of its call;
  the two names differ, and the counter in the second is strictly greater than the
  counter in the first, which is at least the counter's value before the calls.
\<close>

theorem object_add_unnamed_twice:
  assumes "unat (name_generation_counter st) + 2 * length (objs st) + 2 < 2 ^ 64"
  shows "\<exists>(k1::64 word) (k2::64 word) h1 h2 st1 st2.
           object_add L st [] cls = Some (Inr (h1, st1)) \<and>
           object_add L st1 [] cls = Some (Inr (h2, st2)) \<and>
           name (heap st1 h1) = ''Unnamed:'' @ cls @ '':'' @ dec (unat k1) \<and>
           name (heap st2 h2) = ''Unnamed:'' @ cls @ '':'' @ dec (unat k2) \<and>
           map_of (objs st) (name (heap st1 h1)) = None \<and>
           map_of (objs st1) (name (heap st2 h2)) = None \<and>
           name (heap st1 h1) \<noteq> name (heap st2 h2) \<and>
           unat (name_generation_counter st) \<le> unat k1 \<and> unat k1 < unat k2"
proof -
  let ?c = "name_generation_counter st"
  let ?n = "length (objs st)"
  have a1: "unat ?c + ?n < 2 ^ 64" using assms by simp
  from object_add_unnamed [OF a1, of cls L] obtain j1 st1 where j1: "j1 \<le> ?n"
    and free1: "map_of (objs st) (unnamed cls (?c + of_nat j1)) = None"
    and add1: "object_add L st [] cls = Some (Inr (next_handle st, st1))"
    and nm1: "name (heap st1 (next_handle st)) = unnamed cls (?c + of_nat j1)"
    and objs1: "objs st1 = objs st @ [(unnamed cls (?c + of_nat j1), next_handle st)]"
    and cnt1: "name_generation_counter st1 = ?c + of_nat j1 + 1"
    by blast
  let ?k1 = "?c + of_nat j1"
  have u1: "unat ?k1 = unat ?c + j1"
    using j1 assms by (simp add: unat_word_ariths unat_of_nat take_bit_nat_eq_self)
  have uc1: "unat (name_generation_counter st1) = unat ?c + j1 + 1"
    unfolding cnt1 using j1 assms u1 by (simp add: unat_word_ariths take_bit_nat_eq_self)
  have len1: "length (objs st1) = Suc ?n" by (simp add: objs1)
  have a2: "unat (name_generation_counter st1) + length (objs st1) < 2 ^ 64"
    using uc1 len1 j1 assms by simp
  from object_add_unnamed [OF a2, of cls L] obtain j2 st2 where j2: "j2 \<le> length (objs st1)"
    and free2: "map_of (objs st1) (unnamed cls (name_generation_counter st1 + of_nat j2)) = None"
    and add2: "object_add L st1 [] cls = Some (Inr (next_handle st1, st2))"
    and nm2: "name (heap st2 (next_handle st1)) = unnamed cls (name_generation_counter st1 + of_nat j2)"
    by blast
  let ?k2 = "name_generation_counter st1 + of_nat j2"
  have u2: "unat ?k2 = unat ?c + j1 + 1 + j2"
    using j2 len1 j1 assms uc1 by (simp add: unat_word_ariths unat_of_nat take_bit_nat_eq_self)
  have lt: "unat ?k1 < unat ?k2" using u1 u2 by simp
  then have "?k1 \<noteq> ?k2" by auto
  then have ne: "unnamed cls ?k1 \<noteq> unnamed cls ?k2" using unnamed_inj by blast
  have "object_add L st [] cls = Some (Inr (next_handle st, st1)) \<and>
        object_add L st1 [] cls = Some (Inr (next_handle st1, st2)) \<and>
        name (heap st1 (next_handle st)) = ''Unnamed:'' @ cls @ '':'' @ dec (unat ?k1) \<and>
        name (heap st2 (next_handle st1)) = ''Unnamed:'' @ cls @ '':'' @ dec (unat ?k2) \<and>
        map_of (objs st) (name (heap st1 (next_handle st))) = None \<and>
        map_of (objs st1) (name (heap st2 (next_handle st1))) = None \<and>
        name (heap st1 (next_handle st)) \<noteq> name (heap st2 (next_handle st1)) \<and>
        unat (name_generation_counter st) \<le> unat ?k1 \<and> unat ?k1 < unat ?k2"
    using add1 add2 free1 free2 ne lt u1 unfolding nm1 nm2
    by (simp add: unnamed_def)
  then show ?thesis by (intro exI) assumption
qed

text \<open>The theorem at the empty world.\<close>

theorem object_add_unnamed_twice_witness:
  "unat (name_generation_counter empty_world) + 2 * length (objs empty_world) + 2 < 2 ^ 64 \<and>
   (\<exists>(k1::64 word) (k2::64 word) h1 h2 st1 st2.
      object_add (run_cmds 0) empty_world [] ''c'' = Some (Inr (h1, st1)) \<and>
      object_add (run_cmds 0) st1 [] ''c'' = Some (Inr (h2, st2)) \<and>
      name (heap st1 h1) = ''Unnamed:'' @ ''c'' @ '':'' @ dec (unat k1) \<and>
      name (heap st2 h2) = ''Unnamed:'' @ ''c'' @ '':'' @ dec (unat k2) \<and>
      map_of (objs empty_world) (name (heap st1 h1)) = None \<and>
      map_of (objs st1) (name (heap st2 h2)) = None \<and>
      name (heap st1 h1) \<noteq> name (heap st2 h2) \<and>
      unat (name_generation_counter empty_world) \<le> unat k1 \<and> unat k1 < unat k2)"
proof -
  have h: "unat (name_generation_counter empty_world) + 2 * length (objs empty_world) + 2 < 2 ^ 64"
    by (simp add: empty_world_def)
  from object_add_unnamed_twice [OF h, of "run_cmds 0" "''c''"] h show ?thesis by (intro conjI)
qed

text \<open>
  C6 as stated fails when the counter wraps: the counter is an \<^verbatim>\<open>unsigned long long\<close>,
  and from its last value the first anonymous name carries 18446744073709551615 and the
  next one carries 0.
\<close>

theorem object_add_unnamed_wrap_counterexample:
  "name_generation_counter wrap_world = - 1 \<and>
   (case object_add (run_cmds 0) wrap_world [] ''c'' of
      Some (Inr (h1, st1)) \<Rightarrow>
        name (heap st1 h1) = ''Unnamed:c:18446744073709551615'' \<and>
        (case object_add (run_cmds 0) st1 [] ''c'' of
           Some (Inr (h2, st2)) \<Rightarrow> name (heap st2 h2) = ''Unnamed:c:0''
         | _ \<Rightarrow> False)
    | _ \<Rightarrow> False)"
  by (simp add: wrap_world_def example_defs object_add_def gen_name_free unnamed_def
      unat_max_word64 dec_examples prim_defs ok_def Let_def)

subsection \<open>Replacing a record\<close>














subsection \<open>A pass of frame callbacks\<close>

lemma unsub_step_refl: "unsub_step [] s s"
  by (simp add: unsub_step_def)

lemma unsub_step_trans: "unsub_step l1 s s1 \<Longrightarrow> unsub_step l2 s1 s2 \<Longrightarrow> unsub_step (l1 @ l2) s s2"
  by (auto simp add: unsub_step_def)

lemma unsub_step_frame_hook: "unsub_step lg s s' \<Longrightarrow> frame_hook s' = frame_hook s"
  by (rule ext) (auto simp add: unsub_step_def frame_hook_def getField_def split: option.splits)

lemma unsub_step_cmd: "unsub_step lg s s' \<Longrightarrow> unsub_cmd s' = unsub_cmd s"
  by (rule ext) (simp add: unsub_step_def unsub_cmd_def split: cmd.splits)

lemma unsub_step_only:
  assumes "unsub_step lg s s'"
  shows "unsubscribes_only s' = unsubscribes_only s"
proof (rule ext)
  fix h
  have a: "frame_hook s' = frame_hook s" by (rule unsub_step_frame_hook [OF assms])
  have b: "unsub_cmd s' = unsub_cmd s" by (rule unsub_step_cmd [OF assms])
  have c: "gritClass (heap s' h) = gritClass (heap s h)" using assms by (simp add: unsub_step_def)
  show "unsubscribes_only s' h = unsubscribes_only s h"
    by (simp add: unsubscribes_only_def a b c cong: option.case_cong)
qed

lemma unsubscribe_step:
  assumes "gritClass (heap s t) \<noteq> None"
  shows "\<exists>s'. setNeedsFrameCallbacks s t False = Inr s' \<and> unsub_step [] s s' \<and>
           (frame_set_mirrors s \<longrightarrow> t \<notin> set (objs_needing_frame_callbacks s'))"
  using assms
  by (auto simp add: setNeedsFrameCallbacks_def unsub_step_def frame_set_mirrors_def Let_def
      upd_obj_def list_all_iff)

lemma unsub_body:
  assumes "list_all (unsub_cmd s) cs"
  shows "\<exists>s'. run_cmds (Suc m) s cs = Some (Inr s') \<and> unsub_step [] s s'"
  using assms
proof (induction cs arbitrary: s)
  case Nil
  then show ?case by (simp add: ok_def unsub_step_refl)
next
  case (Cons c cs)
  from Cons.prems have hd: "unsub_cmd s c" and rest: "list_all (unsub_cmd s) cs"
    by simp_all
  from hd obtain t where c: "c = CSetFrame t False" and t: "gritClass (heap s t) \<noteq> None"
    by (cases c) (auto simp add: unsub_cmd_def)
  from unsubscribe_step [OF t] obtain s1 where s1: "setNeedsFrameCallbacks s t False = Inr s1"
    and u1: "unsub_step [] s s1" by blast
  from rest have "list_all (unsub_cmd s1) cs"
    by (simp add: unsub_step_cmd [OF u1])
  from Cons.IH [OF this] obtain s' where s': "run_cmds (Suc m) s1 cs = Some (Inr s')"
    and u2: "unsub_step [] s1 s'" by blast
  have "run_cmds (Suc m) s (c # cs) = Some (Inr s')"
    by (simp add: c exec_cmd_def lift_def s1 s')
  with unsub_step_trans [OF u1 u2] show ?case by auto
qed

lemma unsub_step_log: "unsub_step [] (s\<lparr>lua_calls := lua_calls s @ lg\<rparr>) s' \<Longrightarrow> unsub_step lg s s'"
  by (simp add: unsub_step_def frame_set_mirrors_def)

lemma frame_turn:
  assumes only: "unsubscribes_only s i"
  shows "\<exists>s2. frame_loop (run_cmds (Suc m)) s e (i # vs) = frame_loop (run_cmds (Suc m)) s2 e vs \<and>
           unsub_step (frame_calls s [i]) s s2 \<and>
           (frame_set_mirrors s \<and> stops_frame_calls s i \<longrightarrow> i \<notin> set (objs_needing_frame_callbacks s2))"
proof -
  from only obtain c where live: "gritClass (heap s i) = Some c"
    by (auto simp add: unsubscribes_only_def)
  then have gf: "getField s i ''frameCallback'' = Inr (frame_hook s i)"
    by (simp add: frame_hook_def getField_def split: option.splits)
  show ?thesis
  proof (cases "frame_hook s i")
    case None
    from unsubscribe_step [of s i] live obtain s2 where s2: "setNeedsFrameCallbacks s i False = Inr s2"
      and u: "unsub_step [] s s2"
      and gone: "frame_set_mirrors s \<longrightarrow> i \<notin> set (objs_needing_frame_callbacks s2)" by auto
    have "frame_loop (run_cmds (Suc m)) s e (i # vs) = frame_loop (run_cmds (Suc m)) s2 e vs"
      by (simp add: frameCallback_def live gf None ok_def lift_def s2)
    with u gone show ?thesis by (auto simp add: frame_calls_def None)
  next
    case (Some hk)
    let ?sL = "s\<lparr>lua_calls := lua_calls s @ [(i, ''frameCallback'')]\<rparr>"
    from only Some have "list_all (unsub_cmd s) (body hk)" by (simp add: unsubscribes_only_def)
    then have "list_all (unsub_cmd ?sL) (body hk)" by (simp add: unsub_cmd_def [abs_def])
    from unsub_body [OF this, of m] obtain s1 where run: "run_cmds (Suc m) ?sL (body hk) = Some (Inr s1)"
      and u0: "unsub_step [] ?sL s1" by blast
    from unsub_step_log [OF u0] have u1: "unsub_step [(i, ''frameCallback'')] s s1" .
    have fc: "frameCallback (run_cmds (Suc m)) s i e = Some (Inr (status hk \<noteq> Raised, s1))"
      by (simp add: frameCallback_def live gf Some pcall_def run ok_def)
    show ?thesis
    proof (cases "status hk = Raised")
      case True
      from u1 live have "gritClass (heap s1 i) \<noteq> None" by (simp add: unsub_step_def)
      from unsubscribe_step [OF this] obtain s2 where s2: "setNeedsFrameCallbacks s1 i False = Inr s2"
        and u2: "unsub_step [] s1 s2"
        and gone: "frame_set_mirrors s1 \<longrightarrow> i \<notin> set (objs_needing_frame_callbacks s2)" by blast
      have "frame_loop (run_cmds (Suc m)) s e (i # vs) = frame_loop (run_cmds (Suc m)) s2 e vs"
        by (simp add: fc True lift_def s2)
      moreover from unsub_step_trans [OF u1 u2] have "unsub_step (frame_calls s [i]) s s2"
        by (simp add: frame_calls_def Some)
      moreover from u1 gone have "frame_set_mirrors s \<longrightarrow> i \<notin> set (objs_needing_frame_callbacks s2)"
        by (simp add: unsub_step_def)
      ultimately show ?thesis by blast
    next
      case False
      have "frame_loop (run_cmds (Suc m)) s e (i # vs) = frame_loop (run_cmds (Suc m)) s1 e vs"
        by (simp add: fc False ok_def)
      moreover from u1 have "unsub_step (frame_calls s [i]) s s1"
        by (simp add: frame_calls_def Some)
      moreover have "\<not> stops_frame_calls s i" using False by (simp add: stops_frame_calls_def Some)
      ultimately show ?thesis by blast
    qed
  qed
qed

lemma frame_loop_unsub:
  assumes "list_all (unsubscribes_only s) vs" and "frame_set_mirrors s"
  shows "\<exists>s'. frame_loop (run_cmds (Suc m)) s e vs = Some (Inr s') \<and>
           unsub_step (frame_calls s vs) s s' \<and>
           (\<forall>h\<in>set vs. stops_frame_calls s h \<longrightarrow> h \<notin> set (objs_needing_frame_callbacks s'))"
  using assms
proof (induction vs arbitrary: s)
  case Nil
  then show ?case by (simp add: ok_def frame_calls_def unsub_step_refl)
next
  case (Cons i vs)
  from Cons.prems have i: "unsubscribes_only s i" and rest: "list_all (unsubscribes_only s) vs"
    by simp_all
  from frame_turn [OF i, of m e vs] Cons.prems(2) obtain s2 where
    eq: "frame_loop (run_cmds (Suc m)) s e (i # vs) = frame_loop (run_cmds (Suc m)) s2 e vs"
    and u1: "unsub_step (frame_calls s [i]) s s2"
    and gone: "stops_frame_calls s i \<longrightarrow> i \<notin> set (objs_needing_frame_callbacks s2)"
    by blast
  from u1 Cons.prems(2) have m2: "frame_set_mirrors s2" by (simp add: unsub_step_def)
  from rest have rest2: "list_all (unsubscribes_only s2) vs" by (simp add: unsub_step_only [OF u1])
  from Cons.IH [OF rest2 m2] obtain s' where
    run: "frame_loop (run_cmds (Suc m)) s2 e vs = Some (Inr s')"
    and u2: "unsub_step (frame_calls s2 vs) s2 s'"
    and gone2: "\<forall>h\<in>set vs. stops_frame_calls s2 h \<longrightarrow> h \<notin> set (objs_needing_frame_callbacks s')"
    by blast
  have fh: "frame_hook s2 = frame_hook s" by (rule unsub_step_frame_hook [OF u1])
  have calls: "frame_calls s [i] @ frame_calls s2 vs = frame_calls s (i # vs)"
    by (simp add: frame_calls_def fh)
  from unsub_step_trans [OF u1 u2] have u: "unsub_step (frame_calls s (i # vs)) s s'"
    by (simp only: calls)
  from u2 have sub: "set (objs_needing_frame_callbacks s') \<subseteq> set (objs_needing_frame_callbacks s2)"
    by (simp add: unsub_step_def)
  have "\<forall>h\<in>set (i # vs). stops_frame_calls s h \<longrightarrow> h \<notin> set (objs_needing_frame_callbacks s')"
    using gone gone2 sub by (auto simp add: stops_frame_calls_def fh)
  with eq run u show ?case by auto
qed

lemma count_frame_calls:
  "distinct vs \<Longrightarrow> h \<in> set vs \<Longrightarrow> frame_hook st h \<noteq> None \<Longrightarrow>
     count_list (frame_calls st vs) (h, ''frameCallback'') = 1"
  by (induction vs) (auto simp add: frame_calls_def count_list_0_iff)

text \<open>
  C8, as amended. \<open>object_do_frame_callbacks\<close> iterates the frame hot-set as it is at the
  start of the pass. If that set has no duplicates and mirrors the flags, and every
  subscriber is live with a frame callback that only unsubscribes live objects, then the
  pass returns without an error (with any fuel of at least 1); the hook calls it makes are
  exactly one call, in the snapshot's order, for each subscriber that has a hook, so each
  of them is called exactly once even if another object's callback has unsubscribed it
  during the pass; and every subscriber whose hook is absent or raises an error is out of
  the hot-set at the end of the pass.
\<close>

theorem frame_pass_snapshot:
  assumes "distinct (objs_needing_frame_callbacks st)" and "frame_set_mirrors st"
    and "list_all (unsubscribes_only st) (objs_needing_frame_callbacks st)"
  shows "\<exists>st'. object_do_frame_callbacks (run_cmds (Suc m)) st e = Some (Inr st') \<and>
           lua_calls st' = lua_calls st @ frame_calls st (objs_needing_frame_callbacks st) \<and>
           (\<forall>h\<in>set (objs_needing_frame_callbacks st).
              (frame_hook st h \<noteq> None \<longrightarrow>
                 count_list (lua_calls st') (h, ''frameCallback'') =
                   count_list (lua_calls st) (h, ''frameCallback'') + 1) \<and>
              (stops_frame_calls st h \<longrightarrow> h \<notin> set (objs_needing_frame_callbacks st')))"
proof -
  from frame_loop_unsub [OF assms(3,2), of m e] obtain st' where
    run: "frame_loop (run_cmds (Suc m)) st e (objs_needing_frame_callbacks st) = Some (Inr st')"
    and u: "unsub_step (frame_calls st (objs_needing_frame_callbacks st)) st st'"
    and gone: "\<forall>h\<in>set (objs_needing_frame_callbacks st).
        stops_frame_calls st h \<longrightarrow> h \<notin> set (objs_needing_frame_callbacks st')"
    by blast
  from u have calls: "lua_calls st' = lua_calls st @ frame_calls st (objs_needing_frame_callbacks st)"
    by (simp add: unsub_step_def)
  have "count_list (lua_calls st') (h, ''frameCallback'') = count_list (lua_calls st) (h, ''frameCallback'') + 1"
    if "h \<in> set (objs_needing_frame_callbacks st)" "frame_hook st h \<noteq> None" for h
    using count_frame_calls [OF assms(1) that] by (simp add: calls)
  with run calls gone show ?thesis
    by (simp add: object_do_frame_callbacks_def)
qed

text \<open>
  The theorem in \<open>callback_world\<close>: object 1 is unsubscribed by the callback of object 0
  and is still called once; objects 2 (no hook) and 3 (hook raises) are unsubscribed.
\<close>

theorem frame_pass_snapshot_witness:
  "distinct (objs_needing_frame_callbacks callback_world) \<and> frame_set_mirrors callback_world \<and>
   list_all (unsubscribes_only callback_world) (objs_needing_frame_callbacks callback_world) \<and>
   frame_hook callback_world 2 = None \<and> stops_frame_calls callback_world 3 \<and>
   (\<exists>st'. object_do_frame_callbacks (run_cmds (Suc 0)) callback_world f_one = Some (Inr st') \<and>
      lua_calls st' = [(0, ''frameCallback''), (1, ''frameCallback''), (3, ''frameCallback'')] \<and>
      count_list (lua_calls st') (1, ''frameCallback'') = 1 \<and>
      2 \<notin> set (objs_needing_frame_callbacks st') \<and>
      3 \<notin> set (objs_needing_frame_callbacks st') \<and>
      objs_needing_frame_callbacks st' = [0])"
proof -
  have h: "distinct (objs_needing_frame_callbacks callback_world)" "frame_set_mirrors callback_world"
    "list_all (unsubscribes_only callback_world) (objs_needing_frame_callbacks callback_world)"
    by (simp_all add: callback_world_def example_defs frame_set_mirrors_def unsubscribes_only_def
        frame_hook_def getField_def unsub_cmd_def)
  have f: "frame_hook callback_world 1 \<noteq> None" "frame_hook callback_world 2 = None"
    "stops_frame_calls callback_world 2" "stops_frame_calls callback_world 3"
    "frame_calls callback_world (objs_needing_frame_callbacks callback_world) =
       [(0, ''frameCallback''), (1, ''frameCallback''), (3, ''frameCallback'')]"
    "lua_calls callback_world = []" "objs_needing_frame_callbacks callback_world = [0, 1, 2, 3]"
    by (simp_all add: callback_world_def example_defs frame_hook_def getField_def
        stops_frame_calls_def frame_calls_def)
  have ev: "\<exists>st'. object_do_frame_callbacks (run_cmds (Suc 0)) callback_world f_one = Some (Inr st') \<and>
      objs_needing_frame_callbacks st' = [0]"
    by (simp add: callback_world_def example_defs frame_defs call_defs prim_defs hook_defs Let_def)
  from frame_pass_snapshot [OF h, of 0 f_one] obtain st' where
    run: "object_do_frame_callbacks (run_cmds (Suc 0)) callback_world f_one = Some (Inr st')"
    and calls: "lua_calls st' = lua_calls callback_world @
        frame_calls callback_world (objs_needing_frame_callbacks callback_world)"
    and each: "\<forall>h\<in>set (objs_needing_frame_callbacks callback_world).
        (frame_hook callback_world h \<noteq> None \<longrightarrow>
           count_list (lua_calls st') (h, ''frameCallback'') =
             count_list (lua_calls callback_world) (h, ''frameCallback'') + 1) \<and>
        (stops_frame_calls callback_world h \<longrightarrow> h \<notin> set (objs_needing_frame_callbacks st'))"
    by blast
  from each f have "count_list (lua_calls st') (1, ''frameCallback'') = 1"
    "2 \<notin> set (objs_needing_frame_callbacks st')" "3 \<notin> set (objs_needing_frame_callbacks st')"
    by simp_all
  moreover from calls f have "lua_calls st' = [(0, ''frameCallback''), (1, ''frameCallback''), (3, ''frameCallback'')]"
    by simp
  moreover from ev run have "objs_needing_frame_callbacks st' = [0]" by auto
  ultimately show ?thesis using h f run by (intro conjI exI [of _ st']) simp_all
qed

text \<open>
  C8 as stated fails when the unsubscription is a deletion: in \<open>frame_del_world\<close> the
  callback of object 0 deletes object 1, which is still in the snapshot; the dispatch to
  object 1 then finds it destroyed and raises ContractViolation, which is not swallowed.
  Object 1 is never called and the pass does not complete, whatever the fuel.
\<close>

theorem frame_pass_delete_counterexample:
  "objs_needing_frame_callbacks frame_del_world = [0, 1] \<and>
   frame_hook frame_del_world 1 \<noteq> None \<and>
   object_do_frame_callbacks (run_cmds 0) frame_del_world f_one = None \<and>
   (\<forall>m. object_do_frame_callbacks (run_cmds (Suc m)) frame_del_world f_one = Some (Inl ContractViolation))"
  by (simp add: frame_del_world_def example_defs frame_hook_def frame_defs call_defs prim_defs
      hook_defs Let_def)

subsection \<open>Deleting every object\<close>

lemma del_step_refl: "del_step rank b s s"
  by (simp add: del_step_def)

lemma del_step_trans:
  assumes "del_step rank b s s1" and "del_step rank b s1 s2"
  shows "del_step rank b s s2"
  unfolding del_step_def
proof (intro conjI allI)
  fix x
  from assms have a: "(gritClass (heap s1 x) = gritClass (heap s x) \<and>
            userValues (heap s1 x) = userValues (heap s x) \<and>
            (lua (heap s1 x) = lua (heap s x) \<or> lua (heap s1 x) = None)) \<or>
           (rank x < b \<and> gritClass (heap s1 x) = None)"
    and b: "(gritClass (heap s2 x) = gritClass (heap s1 x) \<and>
            userValues (heap s2 x) = userValues (heap s1 x) \<and>
            (lua (heap s2 x) = lua (heap s1 x) \<or> lua (heap s2 x) = None)) \<or>
           (rank x < b \<and> gritClass (heap s2 x) = None)"
    by (simp_all add: del_step_def)
  from a b show "(gritClass (heap s2 x) = gritClass (heap s x) \<and>
            userValues (heap s2 x) = userValues (heap s x) \<and>
            (lua (heap s2 x) = lua (heap s x) \<or> lua (heap s2 x) = None)) \<or>
           (rank x < b \<and> gritClass (heap s2 x) = None)"
    by auto
next
  fix c show "class_fields (classes s2 c) = class_fields (classes s c)"
    using assms by (simp add: del_step_def)
next
  fix x show "name (heap s2 x) = name (heap s x)"
    using assms by (simp add: del_step_def)
next
  show "fst ` set (objs s2) \<subseteq> fst ` set (objs s)"
    using assms unfolding del_step_def by blast
qed

lemma del_step_mono: "del_step rank b s s' \<Longrightarrow> b \<le> b' \<Longrightarrow> del_step rank b' s s'"
  unfolding del_step_def by (metis order_less_le_trans)

lemma del_step_hook:
  assumes "del_step rank b s s'" and "gritClass (heap s' x) \<noteq> None"
  shows "deact_hook s' x = deact_hook s x \<and> gritClass (heap s' x) = gritClass (heap s x) \<and>
         (lua (heap s' x) \<noteq> None \<longrightarrow> lua (heap s x) \<noteq> None)"
proof -
  from assms have same: "gritClass (heap s' x) = gritClass (heap s x)"
    "userValues (heap s' x) = userValues (heap s x)"
    "lua (heap s' x) = lua (heap s x) \<or> lua (heap s' x) = None"
    unfolding del_step_def by metis+
  from assms(1) have cf: "\<And>c. class_fields (classes s' c) = class_fields (classes s c)"
    by (simp add: del_step_def)
  have "deact_hook s' x = deact_hook s x"
    by (simp add: deact_hook_def getField_def same(1,2) cf cong: option.case_cong)
  moreover have "lua (heap s' x) \<noteq> None \<longrightarrow> lua (heap s x) \<noteq> None"
    using same(3) by metis
  ultimately show ?thesis using same(1) by blast
qed

lemma deact_hook_live: "deact_hook s x = Some hk \<Longrightarrow> gritClass (heap s x) \<noteq> None"
  by (auto simp add: deact_hook_def getField_def split: option.splits)

lemma del_step_descend:
  assumes "del_step rank b s s'" and "hooks_descend rank s"
  shows "hooks_descend rank s'"
  unfolding hooks_descend_def
proof (intro allI impI)
  fix h hk
  assume a: "lua (heap s' h) \<noteq> None \<and> deact_hook s' h = Some hk"
  then have "gritClass (heap s' h) \<noteq> None" by (simp add: deact_hook_live)
  from del_step_hook [OF assms(1) this] a
  have "lua (heap s h) \<noteq> None \<and> deact_hook s h = Some hk" by simp
  with assms(2) show "list_all (deletes_below rank (rank h)) (body hk)"
    unfolding hooks_descend_def by blast
qed

lemma del_step_same:
  assumes "\<And>c. class_fields (classes s' c) = class_fields (classes s c)"
    and "\<And>x. name (heap s' x) = name (heap s x)"
    and "\<And>x. gritClass (heap s' x) = gritClass (heap s x)"
    and "\<And>x. userValues (heap s' x) = userValues (heap s x)"
    and "\<And>x. lua (heap s' x) = lua (heap s x) \<or> lua (heap s' x) = None"
    and "fst ` set (objs s') \<subseteq> fst ` set (objs s)"
  shows "del_step rank b s s'"
  unfolding del_step_def
proof (intro conjI allI)
  fix x
  show "(gritClass (heap s' x) = gritClass (heap s x) \<and>
            userValues (heap s' x) = userValues (heap s x) \<and>
            (lua (heap s' x) = lua (heap s x) \<or> lua (heap s' x) = None)) \<or>
           (rank x < b \<and> gritClass (heap s' x) = None)"
    by (rule disjI1) (intro conjI assms(3) assms(4) assms(5))
qed (rule assms)+

lemma del_step_unlist: "del_step rank b s (streamer_unlist_as_activated h s)"
  by (rule del_step_same) (simp_all add: streamer_unlist_as_activated_def)

lemma del_step_log: "del_step rank b s (s\<lparr>lua_calls := lg\<rparr>)"
  by (rule del_step_same) simp_all

lemma del_step_lua: "del_step rank b s (upd_obj h (\<lambda>ob. ob\<lparr>lua := None\<rparr>) s)"
  by (rule del_step_same) (simp_all add: upd_obj_def)

lemma del_step_near: "del_step rank b s (setNearObj_null h s)"
  by (rule del_step_same) (simp_all add: setNearObj_null_def upd_obj_def split: option.splits)

lemma del_step_far: "del_step rank b s (setFarObj_null h s)"
  by (rule del_step_same) (simp_all add: setFarObj_null_def upd_obj_def split: option.splits)

lemma del_step_frame_set: "del_step rank b s (s\<lparr>objs_needing_frame_callbacks := fs\<rparr>)"
  by (rule del_step_same) simp_all

lemma del_step_step_set: "del_step rank b s (s\<lparr>objs_needing_step_callbacks := fs\<rparr>)"
  by (rule del_step_same) simp_all

lemma del_step_gone:
  "del_step rank (Suc (rank h)) s
     (userValues_destroy h (tryUnloadResources h (upd_obj h (\<lambda>ob. ob\<lparr>gritClass := None\<rparr>) (release c s))))"
  unfolding del_step_def
  by (simp add: userValues_destroy_def tryUnloadResources_def upd_obj_def release_def)

lemma del_step_erase:
  "del_step rank b s ((streamer_unlist h s)\<lparr>objs := AList.delete k (objs (streamer_unlist h s))\<rparr>)"
  "del_step rank b s (streamer_unlist h s)"
  by (rule del_step_same; simp add: streamer_unlist_def dom_delete_subset)+

lemma L_deletesD:
  "L_deletes rank n L \<Longrightarrow> hooks_descend rank s \<Longrightarrow> list_all (deletes_below rank b) cs \<Longrightarrow> b \<le> n \<Longrightarrow>
     \<exists>s'. L s cs = Some (Inr s') \<and> del_step rank b s s'"
  unfolding L_deletes_def by blast

lemma hooks_descendD:
  "hooks_descend rank s \<Longrightarrow> lua (heap s h) \<noteq> None \<Longrightarrow> deact_hook s h = Some hk \<Longrightarrow>
     list_all (deletes_below rank (rank h)) (body hk)"
  unfolding hooks_descend_def by blast

lemma del_step_keeps:
  assumes "del_step rank b s s'" and "\<not> rank x < b"
  shows "gritClass (heap s' x) = gritClass (heap s x)"
proof -
  from assms(1) have "(gritClass (heap s' x) = gritClass (heap s x) \<and>
            userValues (heap s' x) = userValues (heap s x) \<and>
            (lua (heap s' x) = lua (heap s x) \<or> lua (heap s' x) = None)) \<or>
           (rank x < b \<and> gritClass (heap s' x) = None)"
    by (simp add: del_step_def)
  with assms(2) show ?thesis by simp
qed

lemma deactivate_step:
  assumes L: "L_deletes rank n L" and d: "hooks_descend rank st" and r: "rank h \<le> n"
    and live: "gritClass (heap st h) \<noteq> None"
  shows "\<exists>k st'. deactivate L st h = Some (Inr (k, st')) \<and> del_step rank (rank h) st st' \<and>
           gritClass (heap st' h) = gritClass (heap st h)"
proof (cases "isActivated (heap st h)")
  case False
  from live obtain c where c: "gritClass (heap st h) = Some c" by auto
  have "deactivate L st h = Some (Inr (False, st))"
    using False by (simp add: deactivate_def ok_def c)
  then show ?thesis by (intro exI [of _ False] exI [of _ st]) (simp add: del_step_refl)
next
  case True
  from live obtain c where c: "gritClass (heap st h) = Some c" by auto
  let ?s1 = "streamer_unlist_as_activated h st"
  have gf: "getField ?s1 h ''deactivate'' = Inr (deact_hook st h)"
    by (simp add: deact_hook_def getField_def c streamer_unlist_as_activated_def split: option.splits)
  show ?thesis
  proof (cases "deact_hook st h")
    case None
    have res: "deactivate L st h = Some (Inr (True, upd_obj h (\<lambda>ob. ob\<lparr>lua := None\<rparr>) ?s1))"
      using True by (simp add: deactivate_def c gf None ok_def Let_def)
    have all: "del_step rank (rank h) st (upd_obj h (\<lambda>ob. ob\<lparr>lua := None\<rparr>) ?s1)"
      by (rule del_step_trans [OF del_step_unlist del_step_lua])
    have "gritClass (heap (upd_obj h (\<lambda>ob. ob\<lparr>lua := None\<rparr>) ?s1) h) = gritClass (heap st h)"
      by (rule del_step_keeps [OF all]) simp
    with res all show ?thesis
      by (intro exI [of _ True] exI [of _ "upd_obj h (\<lambda>ob. ob\<lparr>lua := None\<rparr>) ?s1"]) simp
  next
    case (Some hk)
    let ?sL = "?s1\<lparr>lua_calls := lua_calls ?s1 @ [(h, ''deactivate'')]\<rparr>"
    have pre: "del_step rank (rank h) st ?sL"
      by (rule del_step_trans [OF del_step_unlist del_step_log])
    have dL: "hooks_descend rank ?sL" by (rule del_step_descend [OF pre d])
    from True have "lua (heap st h) \<noteq> None" by (simp add: isActivated_def)
    from hooks_descendD [OF d this Some] have cmds: "list_all (deletes_below rank (rank h)) (body hk)" .
    from L_deletesD [OF L dL cmds r] obtain s' where run: "L ?sL (body hk) = Some (Inr s')"
      and step: "del_step rank (rank h) ?sL s'" by blast
    let ?k = "case status hk of Returned b \<Rightarrow> b | Raised \<Rightarrow> True"
    let ?st' = "upd_obj h (\<lambda>ob. ob\<lparr>lua := None\<rparr>) s'"
    have res: "deactivate L st h = Some (Inr (?k, ?st'))"
      using True by (simp add: deactivate_def c gf Some pcall_def run ok_def Let_def)
    have all: "del_step rank (rank h) st ?st'"
      by (rule del_step_trans [OF del_step_trans [OF pre step] del_step_lua])
    have "gritClass (heap ?st' h) = gritClass (heap st h)"
      by (rule del_step_keeps [OF all]) simp
    with res all show ?thesis by (intro exI [of _ ?k] exI [of _ ?st']) simp
  qed
qed

lemma destroy_step:
  assumes L: "L_deletes rank n L" and d: "hooks_descend rank st" and r: "rank h \<le> n"
  shows "\<exists>st'. destroy L st h = Some (Inr st') \<and> del_step rank (Suc (rank h)) st st'"
proof (cases "gritClass (heap st h)")
  case None
  then show ?thesis by (simp add: destroy_def ok_def del_step_refl)
next
  case (Some c)
  define st1 where "st1 = (if needsFrameCallbacks (heap st h)
       then st\<lparr>objs_needing_frame_callbacks := removeAll h (objs_needing_frame_callbacks st)\<rparr> else st)"
  define st2 where "st2 = (if needsStepCallbacks (heap st1 h)
       then st1\<lparr>objs_needing_step_callbacks := removeAll h (objs_needing_step_callbacks st1)\<rparr> else st1)"
  define st4 where "st4 = setFarObj_null h (setNearObj_null h st2)"
  have s1: "del_step rank (rank h) st st1" by (simp add: st1_def del_step_refl del_step_frame_set)
  have s2: "del_step rank (rank h) st1 st2" by (simp add: st2_def del_step_refl del_step_step_set)
  have s4: "del_step rank (rank h) st2 st4"
    unfolding st4_def by (rule del_step_trans [OF del_step_near del_step_far])
  have pre: "del_step rank (rank h) st st4"
    by (rule del_step_trans [OF del_step_trans [OF s1 s2] s4])
  have d4: "hooks_descend rank st4" by (rule del_step_descend [OF pre d])
  have live4: "gritClass (heap st4 h) = Some c"
    using del_step_keeps [OF pre, of h] Some by simp
  then have "gritClass (heap st4 h) \<noteq> None" by simp
  from deactivate_step [OF L d4 r this] live4 obtain k st5 where
    deact: "deactivate L st4 h = Some (Inr (k, st5))"
    and s5: "del_step rank (rank h) st4 st5" and live5: "gritClass (heap st5 h) = Some c"
    by auto
  let ?st' = "userValues_destroy h (tryUnloadResources h (upd_obj h (\<lambda>ob. ob\<lparr>gritClass := None\<rparr>) (release c st5)))"
  have res: "destroy L st h = Some (Inr ?st')"
    using Some deact live5
    by (simp add: destroy_def Let_def st1_def [symmetric] st2_def [symmetric] st4_def [symmetric] ok_def)
  have "del_step rank (Suc (rank h)) st ?st'"
    by (rule del_step_trans [OF del_step_mono [OF del_step_trans [OF pre s5]] del_step_gone]) simp
  with res show ?thesis by (intro exI [of _ ?st']) simp
qed

lemma object_del_step:
  assumes L: "L_deletes rank n L" and d: "hooks_descend rank st" and r: "rank h \<le> n"
  shows "\<exists>st'. object_del L st h = Some (Inr st') \<and> del_step rank (Suc (rank h)) st st' \<and>
           name (heap st h) \<notin> fst ` set (objs st')"
proof -
  from destroy_step [OF L d r] obtain st1 where des: "destroy L st h = Some (Inr st1)"
    and s1: "del_step rank (Suc (rank h)) st st1" by blast
  from s1 have nm: "name (heap st1 h) = name (heap st h)" by (simp add: del_step_def)
  let ?st2 = "streamer_unlist h st1"
  let ?st' = "if map_of (objs ?st2) (name (heap ?st2 h)) \<noteq> None
                then ?st2\<lparr>objs := AList.delete (name (heap ?st2 h)) (objs ?st2)\<rparr> else ?st2"
  have res: "object_del L st h = Some (Inr ?st')"
    by (simp add: object_del_def des Let_def ok_def)
  have "del_step rank (Suc (rank h)) st1 ?st'"
    by (simp add: del_step_erase)
  then have all: "del_step rank (Suc (rank h)) st ?st'" by (rule del_step_trans [OF s1])
  have "name (heap st h) \<notin> fst ` set (objs ?st')"
    by (auto simp add: nm [symmetric] streamer_unlist_def delete_notin_dom map_of_eq_None_iff)
  with res all show ?thesis by (intro exI [of _ ?st']) (simp only: simp_thms)
qed

lemma deletes_below_CDel: "deletes_below rank b c \<Longrightarrow> \<exists>t. c = CDel t \<and> rank t < b"
  by (cases c) (simp_all add: deletes_below_def)

lemma run_cmds_deletes: "L_deletes rank n (run_cmds n)"
proof (induction n)
  case 0
  have "\<exists>s'. run_cmds 0 s cs = Some (Inr s') \<and> del_step rank b s s'"
    if "list_all (deletes_below rank b) cs" "b \<le> 0" for s cs b
  proof (cases cs)
    case Nil
    then show ?thesis by (simp add: ok_def del_step_refl)
  next
    case (Cons c cs')
    with that(1) have "deletes_below rank b c" by simp
    from deletes_below_CDel [OF this] that(2) show ?thesis by auto
  qed
  then show ?case unfolding L_deletes_def by (intro allI impI) simp
next
  case (Suc m)
  have "\<exists>s'. run_cmds (Suc m) s cs = Some (Inr s') \<and> del_step rank b s s'"
    if "hooks_descend rank s" "list_all (deletes_below rank b) cs" "b \<le> Suc m" for s cs b
    using that(1,2)
  proof (induction cs arbitrary: s)
    case Nil
    then show ?case by (simp add: ok_def del_step_refl)
  next
    case (Cons c cs)
    from Cons.prems(2) have hd: "deletes_below rank b c" and tl: "list_all (deletes_below rank b) cs"
      by simp_all
    from deletes_below_CDel [OF hd] obtain t where c: "c = CDel t" and t: "rank t < b" by blast
    from t that(3) have r: "rank t \<le> m" by simp
    from object_del_step [OF Suc Cons.prems(1) r] obtain s1 where
      del: "object_del (run_cmds m) s t = Some (Inr s1)"
      and step: "del_step rank (Suc (rank t)) s s1" by blast
    from t have "Suc (rank t) \<le> b" by simp
    from del_step_mono [OF step this] have step1: "del_step rank b s s1" .
    from del_step_descend [OF step1 Cons.prems(1)] have d1: "hooks_descend rank s1" .
    from Cons.IH [OF d1 tl] obtain s' where run: "run_cmds (Suc m) s1 cs = Some (Inr s')"
      and step2: "del_step rank b s1 s'" by blast
    have "run_cmds (Suc m) s (c # cs) = Some (Inr s')"
      by (simp add: c exec_cmd_def del run)
    with del_step_trans [OF step1 step2] show ?case by simp
  qed
  then show ?case unfolding L_deletes_def by (intro allI impI) simp
qed

lemma hook_commands:
  assumes "hooks_descend rank s" and "rank h \<le> n"
  shows "\<exists>st'. object_del (run_cmds n) s h = Some (Inr st') \<and> del_step rank (Suc n) s st' \<and>
           name (heap s h) \<notin> fst ` set (objs st')"
proof -
  from object_del_step [OF run_cmds_deletes assms] obtain st' where
    "object_del (run_cmds n) s h = Some (Inr st')" "del_step rank (Suc (rank h)) s st'"
    "name (heap s h) \<notin> fst ` set (objs st')" by blast
  moreover from assms(2) have "Suc (rank h) \<le> Suc n" by simp
  note del_step_mono [OF calculation(2) this]
  ultimately show ?thesis by (intro exI [of _ st']) (simp only: simp_thms)
qed

lemma all_del_loop_step:
  assumes "hooks_descend rank s" and "list_all (\<lambda>(k, h). rank h \<le> n) m"
  shows "\<exists>s'. all_del_loop (run_cmds n) s m = Some (Inr s') \<and> del_step rank (Suc n) s s' \<and>
           (\<forall>i\<in>set m. name (heap s (snd i)) \<notin> fst ` set (objs s'))"
  using assms
proof (induction m arbitrary: s)
  case Nil
  then show ?case by (simp add: ok_def del_step_refl)
next
  case (Cons i m)
  from Cons.prems(2) have r: "rank (snd i) \<le> n" and rest: "list_all (\<lambda>(k, h). rank h \<le> n) m"
    by (simp_all add: case_prod_unfold)
  from hook_commands [OF Cons.prems(1) r] obtain s1 where
    del: "object_del (run_cmds n) s (snd i) = Some (Inr s1)"
    and step1: "del_step rank (Suc n) s s1"
    and gone: "name (heap s (snd i)) \<notin> fst ` set (objs s1)" by blast
  from del_step_descend [OF step1 Cons.prems(1)] have d1: "hooks_descend rank s1" .
  from Cons.IH [OF d1 rest] obtain s' where run: "all_del_loop (run_cmds n) s1 m = Some (Inr s')"
    and step2: "del_step rank (Suc n) s1 s'"
    and gone2: "\<forall>i\<in>set m. name (heap s1 (snd i)) \<notin> fst ` set (objs s')" by blast
  from step1 have names: "\<And>x. name (heap s1 x) = name (heap s x)" by (simp add: del_step_def)
  from step2 have sub: "fst ` set (objs s') \<subseteq> fst ` set (objs s1)" by (simp add: del_step_def)
  have res: "all_del_loop (run_cmds n) s (i # m) = Some (Inr s')" by (simp add: del run)
  have out: "name (heap s (snd j)) \<notin> fst ` set (objs s')" if j: "j \<in> set (i # m)" for j
  proof (cases "j = i")
    case True
    show ?thesis
    proof
      assume "name (heap s (snd j)) \<in> fst ` set (objs s')"
      with sub have "name (heap s (snd j)) \<in> fst ` set (objs s1)" by (rule subsetD)
      with gone True show False by simp
    qed
  next
    case False
    with j have "j \<in> set m" by simp
    with gone2 have "name (heap s1 (snd j)) \<notin> fst ` set (objs s')" by (rule bspec)
    then show ?thesis by (simp add: names)
  qed
  have "\<forall>j\<in>set (i # m). name (heap s (snd j)) \<notin> fst ` set (objs s')" by (intro ballI out)
  with res del_step_trans [OF step1 step2] show ?case by (intro exI [of _ s']) (simp only: simp_thms)
qed

text \<open>
  A sufficient condition for the sweep to end. \<open>object_all_del\<close> iterates the registry as
  it is at the start (\<open>all_del_loop\<close> runs over the copy). If every entry is filed under
  its record's name and the deactivate hooks of activated objects only delete objects of
  strictly lower rank, for some ranking of the objects, then with fuel of at least the
  largest rank in the registry the sweep returns without an error and leaves the registry
  empty, with \<open>object_count\<close> 0. This includes the hooks that delete objects still in the
  copy, as long as no deletion comes back to an object whose deactivation is under way.
\<close>

lemma all_del_descending_hooks:
  assumes "hooks_descend rank st" and "keyed_by_name st"
    and "list_all (\<lambda>(k, h). rank h \<le> n) (objs st)"
  shows "\<exists>st'. object_all_del (run_cmds n) st = Some (Inr st') \<and> objs st' = [] \<and>
           object_count st' = 0"
proof -
  from all_del_loop_step [OF assms(1,3)] obtain st' where
    run: "all_del_loop (run_cmds n) st (objs st) = Some (Inr st')"
    and step: "del_step rank (Suc n) st st'"
    and gone: "\<forall>i\<in>set (objs st). name (heap st (snd i)) \<notin> fst ` set (objs st')" by blast
  from assms(2) have keyed: "\<forall>i\<in>set (objs st). name (heap st (snd i)) = fst i"
    by (auto simp add: keyed_by_name_def list_all_iff)
  from step have sub: "fst ` set (objs st') \<subseteq> fst ` set (objs st)" by (simp add: del_step_def)
  have "k \<notin> fst ` set (objs st')" for k
  proof
    assume k: "k \<in> fst ` set (objs st')"
    from sub k have "k \<in> fst ` set (objs st)" by (rule subsetD)
    then obtain i where i: "i \<in> set (objs st)" and ki: "k = fst i" by (rule imageE)
    from gone i have "name (heap st (snd i)) \<notin> fst ` set (objs st')" by (rule bspec)
    moreover from keyed i have "name (heap st (snd i)) = fst i" by (rule bspec)
    ultimately show False using k ki by simp
  qed
  then have "fst ` set (objs st') = {}" by (simp only: set_eq_iff empty_iff simp_thms)
  then have "objs st' = []" by simp
  with run show ?thesis by (simp add: object_all_del_def object_count_def)
qed

text \<open>
  In \<open>live_world\<close>: deactivating object 0 runs a hook that deletes object 1, which is
  still in the copy.
\<close>

lemma all_del_live_world:
  "hooks_descend (\<lambda>h. if h = 0 then 1 else 0) live_world \<and> keyed_by_name live_world \<and>
   objs live_world = [(''a'', 0), (''lod'', 1)] \<and> lua (heap live_world 0) \<noteq> None \<and>
   deact_hook live_world 0 = Some \<lparr>body = [CDel 1], status = Returned False\<rparr> \<and>
   (\<exists>st'. object_all_del (run_cmds (Suc 0)) live_world = Some (Inr st') \<and> objs st' = [] \<and>
      object_count st' = 0)"
proof -
  have d: "hooks_descend (\<lambda>h. if h = 0 then 1 else 0) live_world"
    by (auto simp add: hooks_descend_def live_world_def example_defs deact_hook_def getField_def
        deletes_below_def split: if_splits)
  have k: "keyed_by_name live_world"
    by (simp add: keyed_by_name_def live_world_def example_defs)
  have r: "list_all (\<lambda>(k, h). (if h = 0 then 1 else 0) \<le> Suc 0) (objs live_world)"
    by (simp add: live_world_def example_defs)
  have e: "objs live_world = [(''a'', 0), (''lod'', 1)]" "lua (heap live_world 0) \<noteq> None"
    "deact_hook live_world 0 = Some \<lparr>body = [CDel 1], status = Returned False\<rparr>"
    by (simp_all add: live_world_def example_defs deact_hook_def getField_def)
  from all_del_descending_hooks [OF d k r] d k e show ?thesis by (intro conjI)
qed

lemma object_del_stuck:
  assumes c: "gritClass (heap s h) = Some c" and a: "lua (heap s h) \<noteq> None"
    and hk: "deact_hook s h = Some hk"
    and stuck: "\<And>sL. (\<forall>x. gritClass (heap sL x) = gritClass (heap s x) \<and> lua (heap sL x) = lua (heap s x) \<and>
                   deact_hook sL x = deact_hook s x) \<Longrightarrow> L sL (body hk) = None"
  shows "object_del L s h = None"
proof -
  define st1 where "st1 = (if needsFrameCallbacks (heap s h)
       then s\<lparr>objs_needing_frame_callbacks := removeAll h (objs_needing_frame_callbacks s)\<rparr> else s)"
  define st2 where "st2 = (if needsStepCallbacks (heap st1 h)
       then st1\<lparr>objs_needing_step_callbacks := removeAll h (objs_needing_step_callbacks st1)\<rparr> else st1)"
  define st4 where "st4 = setFarObj_null h (setNearObj_null h st2)"
  define sL where "sL = (streamer_unlist_as_activated h st4)
       \<lparr>lua_calls := lua_calls (streamer_unlist_as_activated h st4) @ [(h, ''deactivate'')]\<rparr>"
  have core4: "gritClass (heap st4 x) = gritClass (heap s x) \<and> lua (heap st4 x) = lua (heap s x) \<and>
      userValues (heap st4 x) = userValues (heap s x)" for x
    by (simp add: st4_def st2_def st1_def setFarObj_null_def setNearObj_null_def upd_obj_def
        split: option.splits)
  have cls4: "classes st4 = classes s"
    by (simp add: st4_def st2_def st1_def setFarObj_null_def setNearObj_null_def upd_obj_def
        split: option.splits)
  have hook4: "deact_hook st4 x = deact_hook s x" for x
    by (simp add: deact_hook_def getField_def core4 cls4 cong: option.case_cong)
  have heapL: "heap sL = heap st4" "classes sL = classes st4"
    by (simp_all add: sL_def streamer_unlist_as_activated_def)
  have hookL: "deact_hook sL x = deact_hook st4 x" for x
    by (simp add: deact_hook_def getField_def heapL cong: option.case_cong)
  have coreL: "\<forall>x. gritClass (heap sL x) = gritClass (heap s x) \<and> lua (heap sL x) = lua (heap s x) \<and>
      deact_hook sL x = deact_hook s x"
    by (simp add: hookL hook4 heapL(1) core4)
  have none: "L sL (body hk) = None" by (rule stuck [OF coreL])
  have gf: "getField (streamer_unlist_as_activated h st4) h ''deactivate'' = Inr (Some hk)"
    using hook4 [of h] hk core4 [of h] c
    by (simp add: deact_hook_def getField_def streamer_unlist_as_activated_def split: option.splits)
  have "deactivate L st4 h = None"
    using core4 [of h] c a
    by (simp add: deactivate_def isActivated_def gf pcall_def Let_def sL_def [symmetric] none)
  then have "destroy L s h = None"
    using c by (simp add: destroy_def Let_def st1_def [symmetric] st2_def [symmetric] st4_def [symmetric])
  then show ?thesis by (simp add: object_del_def)
qed

lemma mutual_hooks_stuck:
  "mutual_hooks s \<Longrightarrow> object_del (run_cmds n) s 0 = None \<and> object_del (run_cmds n) s 1 = None"
proof (induction n arbitrary: s)
  case 0
  from 0 have h: "gritClass (heap s 0) = Some ''x''" "lua (heap s 0) \<noteq> None"
    "deact_hook s 0 = Some \<lparr>body = [CDel 1], status = Returned False\<rparr>"
    "gritClass (heap s 1) = Some ''y''" "lua (heap s 1) \<noteq> None"
    "deact_hook s 1 = Some \<lparr>body = [CDel 0], status = Returned False\<rparr>"
    by (simp_all add: mutual_hooks_def)
  have "object_del (run_cmds 0) s 0 = None"
    by (rule object_del_stuck [OF h(1,2,3)]) simp
  moreover have "object_del (run_cmds 0) s 1 = None"
    by (rule object_del_stuck [OF h(4,5,6)]) simp
  ultimately show ?case by simp
next
  case (Suc n)
  from Suc.prems have h: "gritClass (heap s 0) = Some ''x''" "lua (heap s 0) \<noteq> None"
    "deact_hook s 0 = Some \<lparr>body = [CDel 1], status = Returned False\<rparr>"
    "gritClass (heap s 1) = Some ''y''" "lua (heap s 1) \<noteq> None"
    "deact_hook s 1 = Some \<lparr>body = [CDel 0], status = Returned False\<rparr>"
    by (simp_all add: mutual_hooks_def)
  have keep: "mutual_hooks sL"
    if "\<forall>x. gritClass (heap sL x) = gritClass (heap s x) \<and> lua (heap sL x) = lua (heap s x) \<and>
          deact_hook sL x = deact_hook s x" for sL
    using that h by (simp add: mutual_hooks_def)
  have "object_del (run_cmds (Suc n)) s 0 = None"
  proof (rule object_del_stuck [OF h(1,2,3)])
    fix sL
    assume "\<forall>x. gritClass (heap sL x) = gritClass (heap s x) \<and> lua (heap sL x) = lua (heap s x) \<and>
          deact_hook sL x = deact_hook s x"
    from Suc.IH [OF keep [OF this]]
    show "run_cmds (Suc n) sL (body \<lparr>body = [CDel 1], status = Returned False\<rparr>) = None"
      by (simp add: exec_cmd_def)
  qed
  moreover have "object_del (run_cmds (Suc n)) s 1 = None"
  proof (rule object_del_stuck [OF h(4,5,6)])
    fix sL
    assume "\<forall>x. gritClass (heap sL x) = gritClass (heap s x) \<and> lua (heap sL x) = lua (heap s x) \<and>
          deact_hook sL x = deact_hook s x"
    from Suc.IH [OF keep [OF this]]
    show "run_cmds (Suc n) sL (body \<lparr>body = [CDel 0], status = Returned False\<rparr>) = None"
      by (simp add: exec_cmd_def)
  qed
  ultimately show ?case by simp
qed

text \<open>A hook that deletes its own object is enough: the delete of that object never returns.\<close>

lemma self_hook_stuck:
  assumes "gritClass (heap s h) = Some c" and "lua (heap s h) \<noteq> None"
    and "deact_hook s h = Some hk" and "body hk = [CDel h]"
  shows "object_del (run_cmds n) s h = None"
  using assms
proof (induction n arbitrary: s)
  case 0
  show ?case
    by (rule object_del_stuck [OF 0(1,2,3)]) (simp add: 0(4))
next
  case (Suc n)
  show ?case
  proof (rule object_del_stuck [OF Suc.prems(1,2,3)])
    fix sL
    assume same: "\<forall>x. gritClass (heap sL x) = gritClass (heap s x) \<and> lua (heap sL x) = lua (heap s x) \<and>
          deact_hook sL x = deact_hook s x"
    have "object_del (run_cmds n) sL h = None"
      by (rule Suc.IH) (use same Suc.prems in simp_all)
    then show "run_cmds (Suc n) sL (body hk) = None"
      by (simp add: Suc.prems(4) exec_cmd_def)
  qed
qed

text \<open>
  C4. The sweep is to end with an empty registry also when the deactivation of one object
  deletes others that are still in the copy; \<open>destroy\<close> begins with the test that makes a
  second destruction of a record a no-op, and the comment in \<open>object_del\<close> names the case.
  The code misses it: \<open>destroy\<close> clears the class reference, the mark that the test reads,
  only after \<open>deactivate\<close> has returned, and \<open>deactivate\<close> clears the instance reference
  only after the hook has returned. A deletion that comes back to a record while its hook
  runs therefore finds it live and activated, and runs the hook again. In \<open>cycle_world\<close>
  the hook of object 0 deletes object 1, whose hook deletes object 0: the sweep does not
  return, whatever the fuel.
\<close>

theorem object_all_del_reentrant:
  "objs cycle_world = [(''a'', 0), (''b'', 1)] \<and>
   deact_hook cycle_world 0 = Some \<lparr>body = [CDel 1], status = Returned False\<rparr> \<and>
   deact_hook cycle_world 1 = Some \<lparr>body = [CDel 0], status = Returned False\<rparr> \<and>
   (\<forall>n. object_all_del (run_cmds n) cycle_world = None)"
proof -
  have e: "objs cycle_world = [(''a'', 0), (''b'', 1)]"
    "deact_hook cycle_world 0 = Some \<lparr>body = [CDel 1], status = Returned False\<rparr>"
    "deact_hook cycle_world 1 = Some \<lparr>body = [CDel 0], status = Returned False\<rparr>"
    by (simp_all add: cycle_world_def example_defs deact_hook_def getField_def)
  have "mutual_hooks cycle_world"
    by (simp add: mutual_hooks_def cycle_world_def example_defs deact_hook_def getField_def)
  from mutual_hooks_stuck [OF this] have "object_all_del (run_cmds n) cycle_world = None" for n
    by (simp add: object_all_del_def e)
  with e show ?thesis by simp
qed
end
